theory Spec2Isabelle
  imports Complex_Main "HOL-Library.Monad_Syntax" "HOL-Library.Product_Lexorder"
begin

section \<open>Polygon triangulation of manifold (src/polygon/src/polygon.cpp)\<close>

text \<open>
  A shallow embedding of the monotone subdivision and triangulation code.
  Nodes of the \<^verbatim>\<open>std::list\<close> containers live in arenas (lists) and an iterator
  is the index of its node; the order of a container is a separate list of
  indices, so that \<^verbatim>\<open>splice\<close> and \<^verbatim>\<open>insert\<close> leave every iterator valid, as
  in the source. \<^verbatim>\<open>float\<close> values are idealised as real numbers; the
  rounding of the one product that chooses the precision is modelled.
  Diagnostic tracing (\<^verbatim>\<open>PRINT\<close>, \<^verbatim>\<open>ListActive\<close>, \<^verbatim>\<open>Dump\<close>) is not modelled.
\<close>

subsection \<open>Data model\<close>

type_synonym vec2 = "real \<times> real"

datatype EdgeItr = EdgeAt nat | ActiveEnd | InactiveEnd

record VertAdj =
  pos :: vec2
  mesh_idx :: int
  index :: int
  left :: nat
  right :: nat
  edgeL :: EdgeItr
  edgeR :: EdgeItr

type_synonym ivec3 = "int \<times> int \<times> int"

text \<open>The field \<^verbatim>\<open>next\<close> of the source is called \<open>nexte\<close> here.\<close>

record Edge =
  south :: nat
  linked :: EdgeItr
  nexte :: EdgeItr
  forward :: bool
  linked2east :: bool
  flipped :: bool
  eastCertain :: bool
  minDegenerateY :: real

datatype VertType = Start | Backward | Forward | Merge | End | Skip

datatype exn = geometryErr | topologyErr

text \<open>
  The outcome of a function that may throw. \<open>Undefined\<close> stands for undefined
  behaviour of the source (dereferencing or stepping past an \<^verbatim>\<open>end()\<close>
  iterator), \<open>OutOfFuel\<close> for a loop cut off by the model's fuel.
\<close>

datatype 'a result = Ok 'a | Throw exn | Undefined | OutOfFuel

record ExecutionParams =
  intermediateChecks :: bool
  verbose :: bool
  processOverlaps :: bool
  suppressErrors :: bool

text \<open>
  \<open>verts\<close> and \<open>edges\<close> are the node arenas; \<open>monotones\<close>, \<open>activeEdges\<close>
  and \<open>inactiveEdges\<close> give the order of the three lists.
\<close>

record Monotones =
  verts :: "VertAdj list"
  monotones :: "nat list"
  edges :: "Edge list"
  activeEdges :: "nat list"
  inactiveEdges :: "nat list"
  precision :: real

subsection \<open>Geometry primitive\<close>

text \<open>
  Modelled from the spec: \<^verbatim>\<open>CCW\<close> is declared outside the given sources. The
  spec (section 4.1) gives the sign of the cross product of \<open>b - a\<close> and
  \<open>c - a\<close>, and 0 whenever the altitude of the triangle is at most the tolerance.
\<close>

definition CCW :: "vec2 \<Rightarrow> vec2 \<Rightarrow> vec2 \<Rightarrow> real \<Rightarrow> int" where
  "CCW p0 p1 p2 tol =
     (let v1 = (fst p1 - fst p0, snd p1 - snd p0);
          v2 = (fst p2 - fst p0, snd p2 - snd p0);
          area = fst v1 * snd v2 - snd v1 * fst v2;
          base2 = max (fst v1 * fst v1 + snd v1 * snd v1)
                      (fst v2 * fst v2 + snd v2 * snd v2)
      in if area * area \<le> base2 * tol * tol then 0
         else if area > 0 then 1 else - 1)"

subsection \<open>The monotone triangulator\<close>

text \<open>
  \<^verbatim>\<open>reflex_chain_\<close> is a vector used as a stack; the head of the list is
  \<^verbatim>\<open>back()\<close>. \<^verbatim>\<open>onRight_\<close> is not initialised by the constructor; it is written
  by the first \<^verbatim>\<open>ProcessVert\<close> before it is ever read.
\<close>

record Triangulator =
  reflex_chain :: "nat list"
  other_side :: nat
  onRight :: bool
  triangles_output :: int
  precisionT :: real

definition Triangulator_new :: "nat \<Rightarrow> real \<Rightarrow> Triangulator" where
  "Triangulator_new vert prec =
     \<lparr>reflex_chain = [vert], other_side = vert, onRight = False,
      triangles_output = 0, precisionT = prec\<rparr>"

definition NumTriangles :: "Triangulator \<Rightarrow> int" where
  "NumTriangles t = triangles_output t"

definition AddTriangle ::
  "VertAdj list \<Rightarrow> Triangulator \<times> ivec3 list \<Rightarrow> nat \<Rightarrow> nat \<Rightarrow> nat
     \<Rightarrow> Triangulator \<times> ivec3 list" where
  "AddTriangle V tt v0 v1 v2 =
     (let t = fst tt; triangles = snd tt;
          v1' = (if \<not> onRight t then v2 else v1);
          v2' = (if \<not> onRight t then v1 else v2)
      in (t\<lparr>triangles_output := triangles_output t + 1\<rparr>,
          triangles @ [(mesh_idx (V ! v0), mesh_idx (V ! v1'), mesh_idx (V ! v2'))]))"

text \<open>
  The loop of the same-chain branch. On entry \<open>chain\<close> is the reflex chain
  with \<open>v_top\<close> already popped, so its head is \<open>vj\<close>. The result is the
  triangulator, the triangles, the final \<open>v_top\<close> and the remaining chain.
\<close>

fun same_chain ::
  "VertAdj list \<Rightarrow> Triangulator \<times> ivec3 list \<Rightarrow> nat \<Rightarrow> nat \<Rightarrow> nat list
     \<Rightarrow> (Triangulator \<times> ivec3 list) \<times> nat \<times> nat list" where
  "same_chain V tt vi v_top [] = (tt, v_top, [])"
| "same_chain V tt vi v_top (vj # rest) =
     (let ccw = CCW (pos (V ! vi)) (pos (V ! vj)) (pos (V ! v_top)) (precisionT (fst tt))
      in if ccw = (if onRight (fst tt) then 1 else - 1) \<or> ccw = 0
         then same_chain V (AddTriangle V tt vi vj v_top) vi vj rest
         else (tt, v_top, vj # rest))"

text \<open>The loop of the different-chain branch: a fan over the whole chain.\<close>

fun different_chain ::
  "VertAdj list \<Rightarrow> Triangulator \<times> ivec3 list \<Rightarrow> nat \<Rightarrow> nat \<Rightarrow> nat list
     \<Rightarrow> Triangulator \<times> ivec3 list" where
  "different_chain V tt vi v_last [] = tt"
| "different_chain V tt vi v_last (vj # rest) =
     different_chain V (AddTriangle V tt vi v_last vj) vi vj rest"

text \<open>
  \<^verbatim>\<open>Triangulator::ProcessVert\<close>. \<^verbatim>\<open>back()\<close> of an empty vector is undefined
  behaviour; the model returns \<open>None\<close> there.
\<close>

definition ProcessVertT ::
  "VertAdj list \<Rightarrow> nat \<Rightarrow> bool \<Rightarrow> bool \<Rightarrow> Triangulator \<times> ivec3 list
     \<Rightarrow> (Triangulator \<times> ivec3 list) option" where
  "ProcessVertT V vi onR lastv tt =
     (case reflex_chain (fst tt) of
        [] \<Rightarrow> None
      | [v_top] \<Rightarrow>
          Some ((fst tt)\<lparr>reflex_chain := [vi, v_top], onRight := onR\<rparr>, snd tt)
      | v_top # vj # rest \<Rightarrow>
          if onRight (fst tt) = onR \<and> \<not> lastv then
            (case same_chain V tt vi v_top (vj # rest) of
               ((t', tris'), v_top', chain') \<Rightarrow>
                 Some (t'\<lparr>reflex_chain := vi # v_top' # chain'\<rparr>, tris'))
          else
            (case different_chain V
                    ((fst tt)\<lparr>onRight := \<not> onRight (fst tt)\<rparr>, snd tt)
                    vi v_top (vj # rest) of
               (t', tris') \<Rightarrow>
                 Some (t'\<lparr>reflex_chain := [vi, v_top], other_side := v_top\<rparr>, tris')))"

subsection \<open>List containers and iterators\<close>

text \<open>
  \<open>after xs x\<close> and \<open>before xs x\<close> are the neighbours of node \<open>x\<close> in the
  order \<open>xs\<close>; \<open>None\<close> when there is none. \<open>insert_before xs p x\<close> puts \<open>x\<close>
  in front of position \<open>p\<close>, where \<open>None\<close> is \<^verbatim>\<open>end()\<close>.
\<close>

fun after :: "nat list \<Rightarrow> nat \<Rightarrow> nat option" where
  "after [] x = None"
| "after [y] x = None"
| "after (y # z # ys) x = (if y = x then Some z else after (z # ys) x)"

fun before :: "nat list \<Rightarrow> nat \<Rightarrow> nat option" where
  "before [] x = None"
| "before [y] x = None"
| "before (y # z # ys) x = (if z = x then Some y else before (z # ys) x)"

fun insert_before :: "nat list \<Rightarrow> nat option \<Rightarrow> nat \<Rightarrow> nat list" where
  "insert_before [] p x = [x]"
| "insert_before (y # ys) p x =
     (if p = Some y then x # y # ys else y # insert_before ys p x)"

definition begin_of :: "nat list \<Rightarrow> nat option" where
  "begin_of xs = (case xs of [] \<Rightarrow> None | x # _ \<Rightarrow> Some x)"

text \<open>
  Dereferencing an edge iterator. An \<^verbatim>\<open>end()\<close> iterator must not be
  dereferenced: \<open>None\<close>. An index that is no node of the arena stands for no
  iterator of the source and is treated in the same way.
\<close>

definition deref :: "Monotones \<Rightarrow> EdgeItr \<Rightarrow> Edge option" where
  "deref M it =
     (case it of
        EdgeAt e \<Rightarrow> if e < length (edges M) then Some (edges M ! e) else None
      | _ \<Rightarrow> None)"

definition active_begin :: "Monotones \<Rightarrow> EdgeItr" where
  "active_begin M = (case activeEdges M of [] \<Rightarrow> ActiveEnd | e # _ \<Rightarrow> EdgeAt e)"

text \<open>
  \<^verbatim>\<open>std::next\<close> and \<^verbatim>\<open>std::prev\<close> on an edge iterator, in whichever of the two
  edge lists holds the node. Stepping past \<^verbatim>\<open>end()\<close> or before \<^verbatim>\<open>begin()\<close>
  is undefined behaviour: \<open>None\<close>.
\<close>

definition std_next :: "Monotones \<Rightarrow> EdgeItr \<Rightarrow> EdgeItr option" where
  "std_next M it =
     (case it of
        EdgeAt e \<Rightarrow>
          if e \<in> set (activeEdges M) then
            Some (case after (activeEdges M) e of Some e' \<Rightarrow> EdgeAt e' | None \<Rightarrow> ActiveEnd)
          else if e \<in> set (inactiveEdges M) then
            Some (case after (inactiveEdges M) e of Some e' \<Rightarrow> EdgeAt e' | None \<Rightarrow> InactiveEnd)
          else None
      | _ \<Rightarrow> None)"

definition std_prev :: "Monotones \<Rightarrow> EdgeItr \<Rightarrow> EdgeItr option" where
  "std_prev M it =
     (case it of
        EdgeAt e \<Rightarrow>
          if e \<in> set (activeEdges M) then map_option EdgeAt (before (activeEdges M) e)
          else if e \<in> set (inactiveEdges M) then map_option EdgeAt (before (inactiveEdges M) e)
          else None
      | ActiveEnd \<Rightarrow>
          if activeEdges M = [] then None else Some (EdgeAt (last (activeEdges M)))
      | InactiveEnd \<Rightarrow>
          if inactiveEdges M = [] then None else Some (EdgeAt (last (inactiveEdges M))))"

definition upd_edge :: "EdgeItr \<Rightarrow> (Edge \<Rightarrow> Edge) \<Rightarrow> Monotones \<Rightarrow> Monotones option" where
  "upd_edge it f M =
     (case it of
        EdgeAt e \<Rightarrow>
          if e < length (edges M) then Some (M\<lparr>edges := (edges M)[e := f (edges M ! e)]\<rparr>)
          else None
      | _ \<Rightarrow> None)"

definition upd_vert :: "nat \<Rightarrow> (VertAdj \<Rightarrow> VertAdj) \<Rightarrow> Monotones \<Rightarrow> Monotones" where
  "upd_vert v f M = M\<lparr>verts := (verts M)[v := f (verts M ! v)]\<rparr>"

text \<open>\<^verbatim>\<open>activeEdges_.insert(p, e)\<close> for a fresh node \<open>e\<close>.\<close>

definition insert_active :: "EdgeItr \<Rightarrow> nat \<Rightarrow> Monotones \<Rightarrow> Monotones option" where
  "insert_active p e M =
     (case p of
        EdgeAt q \<Rightarrow>
          if q \<in> set (activeEdges M)
          then Some (M\<lparr>activeEdges := insert_before (activeEdges M) (Some q) e\<rparr>)
          else None
      | ActiveEnd \<Rightarrow> Some (M\<lparr>activeEdges := insert_before (activeEdges M) None e\<rparr>)
      | InactiveEnd \<Rightarrow> None)"

text \<open>\<^verbatim>\<open>activeEdges_.splice(p, inactiveEdges_, it)\<close>: one node moves to the active list.\<close>

definition splice_to_active :: "EdgeItr \<Rightarrow> EdgeItr \<Rightarrow> Monotones \<Rightarrow> Monotones option" where
  "splice_to_active p it M =
     (case it of
        EdgeAt e \<Rightarrow>
          if e \<in> set (inactiveEdges M)
          then insert_active p e (M\<lparr>inactiveEdges := remove1 e (inactiveEdges M)\<rparr>)
          else None
      | _ \<Rightarrow> None)"

text \<open>\<^verbatim>\<open>inactiveEdges_.splice(inactiveEdges_.end(), activeEdges_, it)\<close>.\<close>

definition splice_to_inactive :: "EdgeItr \<Rightarrow> Monotones \<Rightarrow> Monotones option" where
  "splice_to_inactive it M =
     (case it of
        EdgeAt e \<Rightarrow>
          if e \<in> set (activeEdges M)
          then Some (M\<lparr>activeEdges := remove1 e (activeEdges M),
                       inactiveEdges := inactiveEdges M @ [e]\<rparr>)
          else None
      | _ \<Rightarrow> None)"

subsection \<open>Methods of \<^verbatim>\<open>VertAdj\<close> and \<^verbatim>\<open>Edge\<close>\<close>

definition Processed :: "VertAdj \<Rightarrow> bool" where
  "Processed v = (index v < 0)"

definition SetSkip :: "VertAdj \<Rightarrow> VertAdj" where
  "SetSkip v = v\<lparr>index := - 2\<rparr>"

definition SetProcessed :: "bool \<Rightarrow> VertAdj \<Rightarrow> VertAdj" where
  "SetProcessed processed v =
     (if index v = - 2 then v else v\<lparr>index := (if processed then - 1 else 0)\<rparr>)"

definition IsStart :: "VertAdj list \<Rightarrow> VertAdj \<Rightarrow> bool" where
  "IsStart V v =
     (let l = pos (V ! left v); r = pos (V ! right v); p = pos v
      in (snd l \<ge> snd p \<and> snd r > snd p) \<or>
         (snd l = snd p \<and> snd r = snd p \<and> fst l \<le> fst p \<and> fst r < fst p))"

definition IsPast :: "VertAdj \<Rightarrow> VertAdj \<Rightarrow> real \<Rightarrow> bool" where
  "IsPast v other prec = (snd (pos v) > snd (pos other) + prec)"

text \<open>\<^verbatim>\<open>VertAdj::operator<\<close>.\<close>

definition less_VertAdj :: "VertAdj \<Rightarrow> VertAdj \<Rightarrow> bool" where
  "less_VertAdj v other = (snd (pos v) < snd (pos other))"

definition North :: "VertAdj list \<Rightarrow> Edge \<Rightarrow> nat" where
  "North V e = (if forward e then right (V ! south e) else left (V ! south e))"

definition EastOf :: "VertAdj list \<Rightarrow> Edge \<Rightarrow> nat \<Rightarrow> real \<Rightarrow> int" where
  "EastOf V e vert prec =
     (let north = North V e;
          sx = fst (pos (V ! south e)); nx = fst (pos (V ! north));
          vx = fst (pos (V ! vert))
      in if sx - prec > vx \<and> nx - prec > vx then 1
         else if sx + prec < vx \<and> nx + prec < vx then - 1
         else CCW (pos (V ! south e)) (pos (V ! north)) (pos (V ! vert)) prec)"

subsection \<open>Bookkeeping operations of \<^verbatim>\<open>Monotones\<close>\<close>

definition Link :: "nat \<Rightarrow> nat \<Rightarrow> Monotones \<Rightarrow> Monotones" where
  "Link l r M = upd_vert r (\<lambda>v. v\<lparr>left := l\<rparr>) (upd_vert l (\<lambda>v. v\<lparr>right := r\<rparr>) M)"

definition UpdateEdge :: "EdgeItr \<Rightarrow> nat \<Rightarrow> Monotones \<Rightarrow> Monotones option" where
  "UpdateEdge edge vert M = do {
     M1 \<leftarrow> upd_edge edge (\<lambda>e. e\<lparr>south := vert\<rparr>) M;
     Some (upd_vert vert (\<lambda>v. v\<lparr>edgeR := edge\<rparr>)
            (upd_vert vert (\<lambda>v. v\<lparr>edgeL := edge\<rparr>) M1))
   }"

definition LinkEdges :: "EdgeItr \<Rightarrow> EdgeItr \<Rightarrow> Monotones \<Rightarrow> Monotones option" where
  "LinkEdges edge1 edge2 M = do {
     M1 \<leftarrow> upd_edge edge1 (\<lambda>e. e\<lparr>linked := edge2\<rparr>) M;
     upd_edge edge2 (\<lambda>e. e\<lparr>linked := edge1\<rparr>) M1
   }"

subsection \<open>The vertex classifier\<close>

text \<open>
  \<^verbatim>\<open>Monotones::ProcessVert\<close>. The conjunctions of the source are short-circuit,
  so an iterator is only stepped or dereferenced where the source does it.
  The edge lists do not change between the two evaluations of
  \<^verbatim>\<open>std::next(edgeR)\<close>, so the model evaluates it once. The local variables
  \<^verbatim>\<open>edgeR\<close> and \<^verbatim>\<open>edgeL\<close> are \<open>eR\<close> and \<open>eL\<close>.
\<close>

definition ProcessVert :: "nat \<Rightarrow> Monotones \<Rightarrow> (VertType \<times> Monotones) option" where
  "ProcessVert vert M =
     (let V = verts M; v = V ! vert; prec = precision M in
      if Processed (V ! right v) then
        if Processed (V ! left v) then do {
          let eR = edgeL (V ! right v);
          let eL = edgeR (V ! left v);
          nR \<leftarrow> std_next M eR;
          skip \<leftarrow> (if nR \<noteq> eL then map_option (\<lambda>nL. nL \<noteq> eR) (std_next M eL)
                   else Some False);
          if skip then Some (Skip, M)
          else do {
            M1 \<leftarrow> upd_edge eR (\<lambda>e. e\<lparr>south := vert\<rparr>) M;
            M2 \<leftarrow> upd_edge eL (\<lambda>e. e\<lparr>south := vert\<rparr>) M1;
            let M3 = upd_vert vert (\<lambda>v. v\<lparr>edgeR := eR\<rparr>) M2;
            let M4 = upd_vert vert (\<lambda>v. v\<lparr>edgeL := eL\<rparr>) M3;
            l \<leftarrow> deref M4 eL;
            r \<leftarrow> deref M4 eR;
            M5 \<leftarrow> LinkEdges (linked l) (linked r) M4;
            Some (if nR = eL then End else Merge, M5)
          }
        }
        else do {
          let bwdEdge = edgeL (V ! right v);
          fwdEdge \<leftarrow> std_next M bwdEdge;
          skip \<leftarrow> (if \<not> IsPast v (V ! right v) prec then do {
                     f \<leftarrow> deref M fwdEdge;
                     let fsr = V ! right (V ! south f);
                     Some (\<not> IsPast fsr v prec \<and> IsPast v (V ! south f) prec \<and>
                           fst (pos v) > fst (pos fsr) + prec)
                   } else Some False);
          if skip then Some (Skip, M)
          else do {
            M1 \<leftarrow> UpdateEdge bwdEdge vert M;
            Some (Backward, M1)
          }
        }
      else
        if Processed (V ! left v) then do {
          let fwdEdge = edgeR (V ! left v);
          bwdEdge \<leftarrow> std_prev M fwdEdge;
          skip \<leftarrow> (if \<not> IsPast v (V ! left v) prec then do {
                     b \<leftarrow> deref M bwdEdge;
                     let bsl = V ! left (V ! south b);
                     Some (\<not> IsPast bsl v prec \<and> IsPast v (V ! south b) prec \<and>
                           fst (pos v) < fst (pos bsl) - prec)
                   } else Some False);
          if skip then Some (Skip, M)
          else do {
            M1 \<leftarrow> UpdateEdge fwdEdge vert M;
            Some (Forward, M1)
          }
        }
        else Some (Start, M))"

subsection \<open>Removing a pair and placing a start\<close>

definition RemovePair :: "EdgeItr \<Rightarrow> Monotones \<Rightarrow> Monotones option" where
  "RemovePair westEdge M = do {
     eastEdge \<leftarrow> std_next M westEdge;
     nextEast \<leftarrow> std_next M eastEdge;
     M1 \<leftarrow> upd_edge eastEdge (\<lambda>e. e\<lparr>nexte := nextEast\<rparr>) M;
     M2 \<leftarrow> upd_edge westEdge (\<lambda>e. e\<lparr>nexte := nextEast\<rparr>) M1;
     M3 \<leftarrow> splice_to_inactive westEdge M2;
     splice_to_inactive eastEdge M3
   }"

text \<open>The first loop of \<^verbatim>\<open>PlaceStart\<close>, over the active edges from \<^verbatim>\<open>begin()\<close>.\<close>

fun PlaceStart_scan :: "Monotones \<Rightarrow> nat \<Rightarrow> nat list \<Rightarrow> EdgeItr" where
  "PlaceStart_scan M vert [] = ActiveEnd"
| "PlaceStart_scan M vert (e # es) =
     (if EastOf (verts M) (edges M ! e) vert 0 \<le> 0 then PlaceStart_scan M vert es
      else EdgeAt e)"

text \<open>
  The correction of an invalid position in \<^verbatim>\<open>PlaceStart\<close>: the new value of
  \<^verbatim>\<open>isHole\<close>, the new \<^verbatim>\<open>eastEdge\<close>, and whether the function returns \<^verbatim>\<open>Skip\<close>.
\<close>

definition PlaceStart_shift ::
  "Monotones \<Rightarrow> nat \<Rightarrow> bool \<Rightarrow> bool \<Rightarrow> EdgeItr \<Rightarrow> (bool \<times> EdgeItr \<times> bool) option" where
  "PlaceStart_shift M vert isHole holeCertain eastEdge =
     (let V = verts M; prec = precision M in
      if \<not> holeCertain then Some (\<not> isHole, eastEdge, False)
      else if (case eastEdge of EdgeAt e \<Rightarrow> EastOf V (edges M ! e) vert prec \<le> 0
               | _ \<Rightarrow> False)
      then map_option (\<lambda>n. (isHole, n, False)) (std_next M eastEdge)
      else if eastEdge \<noteq> active_begin M then do {
        p \<leftarrow> std_prev M eastEdge;
        pe \<leftarrow> deref M p;
        Some (if EastOf V pe vert prec \<ge> 0 then (isHole, p, False)
              else (isHole, eastEdge, True))
      }
      else Some (isHole, eastEdge, True))"

definition PlaceStart :: "nat \<Rightarrow> Monotones \<Rightarrow> (VertType \<times> Monotones) option" where
  "PlaceStart vert M =
     (let V = verts M; v = V ! vert; prec = precision M;
          eastEdge0 = PlaceStart_scan M vert (activeEdges M);
          isHole0 = (CCW (pos (V ! left v)) (pos v) (pos (V ! right v)) 0 < 0);
          holeCertain = (CCW (pos (V ! left v)) (pos v) (pos (V ! right v)) prec \<noteq> 0);
          shouldBeStart = (case eastEdge0 of EdgeAt e \<Rightarrow> \<not> forward (edges M ! e)
                           | _ \<Rightarrow> True)
      in do {
        (isHole, eastEdge, skip) \<leftarrow>
          (if isHole0 = shouldBeStart
           then PlaceStart_shift M vert isHole0 holeCertain eastEdge0
           else Some (isHole0, eastEdge0, False));
        if skip then Some (Skip, M)
        else do {
          let noEdge = ActiveEnd;
          let newEastEdge = length (edges M);
          let eastC = (case eastEdge of EdgeAt e \<Rightarrow> EastOf V (edges M ! e) vert prec > 0
                       | _ \<Rightarrow> True);
          M1 \<leftarrow> insert_active eastEdge newEastEdge
                 (M\<lparr>edges := edges M @
                      [\<lparr>south = vert, linked = noEdge, nexte = noEdge,
                        forward = \<not> isHole, linked2east = False, flipped = False,
                        eastCertain = eastC, minDegenerateY = 0\<rparr>]\<rparr>);
          let newWestEdge = length (edges M1);
          M2 \<leftarrow> insert_active (EdgeAt newEastEdge) newWestEdge
                 (M1\<lparr>edges := edges M1 @
                      [\<lparr>south = vert, linked = noEdge, nexte = noEdge,
                        forward = isHole, linked2east = True, flipped = False,
                        eastCertain = holeCertain, minDegenerateY = 0\<rparr>]\<rparr>);
          let M3 = upd_vert vert
                     (\<lambda>v. v\<lparr>edgeR := EdgeAt (if isHole then newWestEdge else newEastEdge)\<rparr>) M2;
          let M4 = upd_vert vert
                     (\<lambda>v. v\<lparr>edgeL := EdgeAt (if isHole then newEastEdge else newWestEdge)\<rparr>) M3;
          M5 \<leftarrow> LinkEdges (EdgeAt newEastEdge) (EdgeAt newWestEdge) M4;
          Some (Start, M5)
        }
      })"

subsection \<open>Assertions\<close>

text \<open>
  Modelled from the spec: the macro \<^verbatim>\<open>ASSERT\<close> comes from \<^verbatim>\<open>optional_assert.h\<close>,
  which is not among the given sources. Following section 7 of the spec it
  throws the named exception when its condition is false.
\<close>

definition ASSERT :: "bool \<Rightarrow> exn \<Rightarrow> 'a result \<Rightarrow> 'a result" where
  "ASSERT condition ex k = (if condition then k else Throw ex)"

text \<open>
  One step of a loop either continues with a new loop state or leaves the
  function with its outcome.
\<close>

datatype ('s, 'r) step = Continue 's | Exit 'r

text \<open>
  \<^verbatim>\<open>OVERLAP_ASSERT(condition, msg)\<close> followed by the rest \<open>k\<close> of the loop
  body. \<open>debug\<close> says whether \<^verbatim>\<open>MANIFOLD_DEBUG\<close> is defined. With it the macro
  calls \<^verbatim>\<open>OverlapAssert\<close>, which throws unless \<^verbatim>\<open>params.processOverlaps\<close>;
  without it the macro is \<^verbatim>\<open>if (!(condition)) return true;\<close>.
\<close>

definition OverlapAssert :: "ExecutionParams \<Rightarrow> bool \<Rightarrow> bool result" where
  "OverlapAssert params condition =
     (if \<not> processOverlaps params then ASSERT condition geometryErr (Ok condition)
      else Ok condition)"

definition OVERLAP_ASSERT ::
  "bool \<Rightarrow> ExecutionParams \<Rightarrow> bool \<Rightarrow> Monotones
     \<Rightarrow> ('s, (bool \<times> Monotones) result) step \<Rightarrow> ('s, (bool \<times> Monotones) result) step" where
  "OVERLAP_ASSERT debug params condition M k =
     (if debug then
        (case OverlapAssert params condition of
           Ok c \<Rightarrow> if \<not> c then Exit (Ok (True, M)) else k
         | Throw ex \<Rightarrow> Exit (Throw ex)
         | Undefined \<Rightarrow> Exit Undefined
         | OutOfFuel \<Rightarrow> Exit OutOfFuel)
      else if \<not> condition then Exit (Ok (True, M)) else k)"

text \<open>A loop runs its step function until it exits; the fuel bounds the iterations.\<close>

fun run_loop :: "('s \<Rightarrow> ('s, 'r result) step) \<Rightarrow> nat \<Rightarrow> 's \<Rightarrow> 'r result" where
  "run_loop body 0 s = OutOfFuel"
| "run_loop body (Suc n) s =
     (case body s of Continue s' \<Rightarrow> run_loop body n s' | Exit r \<Rightarrow> r)"

subsection \<open>The forward sweep\<close>

text \<open>
  The local state of \<^verbatim>\<open>SweepForward\<close>. \<open>starts\<close> and \<open>skipped\<close> are vectors
  used as stacks, with \<^verbatim>\<open>back()\<close> at the head of the list. \<open>nextAttached\<close> is
  the priority queue, kept as the list of its elements; its top is an element
  of least \<open>y\<close>. Which of several such elements is the top, and the order in
  which \<^verbatim>\<open>std::sort\<close> leaves elements of equal \<open>y\<close>, is not fixed by the
  comparison; the model takes the first one and a stable sort. \<open>insertAt\<close> is
  \<open>None\<close> for \<^verbatim>\<open>monotones_.end()\<close>.
\<close>

record SweepForward_state =
  sM :: Monotones
  nextAttached :: "nat list"
  starts :: "nat list"
  skipped :: "nat list"
  insertAt :: "nat option"

text \<open>The comparison \<^verbatim>\<open>cmp\<close> of \<^verbatim>\<open>SweepForward\<close>.\<close>

definition cmp :: "VertAdj list \<Rightarrow> nat \<Rightarrow> nat \<Rightarrow> bool" where
  "cmp V a b = less_VertAdj (V ! b) (V ! a)"

definition pq_top :: "VertAdj list \<Rightarrow> nat list \<Rightarrow> nat" where
  "pq_top V q = arg_min_list (\<lambda>v. snd (pos (V ! v))) q"

definition pq_pop :: "VertAdj list \<Rightarrow> nat list \<Rightarrow> nat list" where
  "pq_pop V q = remove1 (pq_top V q) q"

definition pq_push :: "nat \<Rightarrow> nat list \<Rightarrow> nat list" where
  "pq_push v q = q @ [v]"

text \<open>The choice of the next vertex at the head of the loop body.\<close>

definition SweepForward_choose :: "nat \<Rightarrow> SweepForward_state \<Rightarrow> nat \<times> SweepForward_state" where
  "SweepForward_choose ia s =
     (let V = verts (sM s); prec = precision (sM s) in
      if nextAttached s \<noteq> [] \<and>
         (starts s = [] \<or>
          \<not> IsPast (V ! pq_top V (nextAttached s)) (V ! hd (starts s)) prec)
      then (pq_top V (nextAttached s), s\<lparr>nextAttached := pq_pop V (nextAttached s)\<rparr>)
      else if starts s \<noteq> [] then (hd (starts s), s\<lparr>starts := tl (starts s)\<rparr>)
      else (ia, s\<lparr>insertAt := after (monotones (sM s)) ia\<rparr>))"

text \<open>The part of the loop body after a vertex was classified other than \<^verbatim>\<open>Skip\<close>.\<close>

definition SweepForward_process ::
  "VertType \<Rightarrow> nat \<Rightarrow> SweepForward_state \<Rightarrow> SweepForward_state option" where
  "SweepForward_process type vert s =
     (let M = sM s;
          s1 = (if Some vert = insertAt s
                then s\<lparr>insertAt := after (monotones M) vert\<rparr>
                else s\<lparr>sM := M\<lparr>monotones :=
                         insert_before (remove1 vert (monotones M)) (insertAt s) vert\<rparr>\<rparr>);
          v = verts M ! vert
      in do {
        s2 \<leftarrow> (case type of
                 Backward \<Rightarrow> Some (s1\<lparr>nextAttached := pq_push (left v) (nextAttached s1)\<rparr>)
               | Forward \<Rightarrow> Some (s1\<lparr>nextAttached := pq_push (right v) (nextAttached s1)\<rparr>)
               | Start \<Rightarrow> Some (s1\<lparr>nextAttached :=
                                    pq_push (right v) (pq_push (left v) (nextAttached s1))\<rparr>)
               | Merge \<Rightarrow> map_option (\<lambda>M'. s1\<lparr>sM := M'\<rparr>) (RemovePair (edgeL v) (sM s1))
               | End \<Rightarrow> map_option (\<lambda>M'. s1\<lparr>sM := M'\<rparr>) (RemovePair (edgeR v) (sM s1))
               | Skip \<Rightarrow> Some s1);
        Some (s2\<lparr>sM := upd_vert vert (SetProcessed True) (sM s2),
                 starts := rev (skipped s2) @ starts s2,
                 skipped := []\<rparr>)
      })"

definition SweepForward_step ::
  "bool \<Rightarrow> ExecutionParams \<Rightarrow> SweepForward_state
     \<Rightarrow> (SweepForward_state, (bool \<times> Monotones) result) step" where
  "SweepForward_step debug params s =
     (case insertAt s of
        None \<Rightarrow> Exit (Ok (False, sM s))
      | Some ia \<Rightarrow>
          (case SweepForward_choose ia s of
             (vert, s1) \<Rightarrow>
               let M = sM s1; V = verts M; prec = precision M in
               if Processed (V ! vert) then Continue s1
               else
                 OVERLAP_ASSERT debug params
                   (skipped s1 = [] \<or> \<not> IsPast (V ! vert) (V ! hd (skipped s1)) prec) M
                   (case ProcessVert vert M of
                      None \<Rightarrow> Exit Undefined
                    | Some (type0, M1) \<Rightarrow>
                        (case (if type0 = Start then PlaceStart vert M1 else Some (type0, M1)) of
                           None \<Rightarrow> Exit Undefined
                         | Some (type, M2) \<Rightarrow>
                             if type = Skip then
                               (case insertAt s1 of
                                  None \<Rightarrow> Exit Undefined
                                | Some ia1 \<Rightarrow>
                                    OVERLAP_ASSERT debug params
                                      (after (monotones M2) ia1 \<noteq> None) M2
                                      (OVERLAP_ASSERT debug params
                                         (nextAttached s1 \<noteq> [] \<or> starts s1 \<noteq> []) M2
                                         (Continue (s1\<lparr>sM := M2,
                                                        skipped := vert # skipped s1\<rparr>))))
                             else
                               (case SweepForward_process type vert (s1\<lparr>sM := M2\<rparr>) of
                                  None \<Rightarrow> Exit Undefined
                                | Some s2 \<Rightarrow> Continue s2)))))"

text \<open>The start candidates, collected in list order and sorted with \<^verbatim>\<open>cmp\<close>.\<close>

definition SweepForward_starts :: "Monotones \<Rightarrow> nat list" where
  "SweepForward_starts M =
     sort_key (\<lambda>v. snd (pos (verts M ! v)))
       (filter (\<lambda>v. IsStart (verts M) (verts M ! v)) (monotones M))"

text \<open>The state in which the loop of \<^verbatim>\<open>SweepForward\<close> starts.\<close>

definition SweepForward_init :: "Monotones \<Rightarrow> SweepForward_state" where
  "SweepForward_init M =
     \<lparr>sM = M, nextAttached = [], starts = SweepForward_starts M, skipped = [],
      insertAt = begin_of (monotones M)\<rparr>"

definition SweepForward ::
  "bool \<Rightarrow> ExecutionParams \<Rightarrow> nat \<Rightarrow> Monotones \<Rightarrow> (bool \<times> Monotones) result" where
  "SweepForward debug params fuel M =
     run_loop (SweepForward_step debug params) fuel (SweepForward_init M)"

subsection \<open>The backward sweep\<close>

text \<open>
  \<^verbatim>\<open>SplitVerts\<close>: the two copies are new nodes of the arena, inserted into
  \<^verbatim>\<open>monotones_\<close> before \<open>north\<close> and after \<open>south\<close> (the parameter \<open>southv\<close>).
\<close>

definition SplitVerts :: "nat \<Rightarrow> nat \<Rightarrow> Monotones \<Rightarrow> nat \<times> Monotones" where
  "SplitVerts north southv M =
     (let northEast = length (verts M);
          M1 = M\<lparr>verts := verts M @ [verts M ! north],
                 monotones := insert_before (monotones M) (Some north) northEast\<rparr>;
          M2 = Link (left (verts M1 ! north)) northEast M1;
          M3 = upd_vert northEast (SetProcessed True) M2;
          southEast = length (verts M3);
          M4 = M3\<lparr>verts := verts M3 @ [verts M3 ! southv],
                  monotones := insert_before (monotones M3)
                                 (after (monotones M3) southv) southEast\<rparr>;
          M5 = Link southEast (right (verts M4 ! southv)) M4;
          M6 = upd_vert southEast (SetProcessed True) M5;
          M7 = Link southv north M6;
          M8 = Link northEast southEast M7
      in (northEast, M8))"

definition CheckSplit :: "nat \<Rightarrow> EdgeItr \<Rightarrow> Monotones \<Rightarrow> (nat \<times> Monotones) option" where
  "CheckSplit vert westEdge M = do {
     w \<leftarrow> deref M westEdge;
     if nexte w \<noteq> ActiveEnd then do {
       n \<leftarrow> deref M (nexte w);
       let (vert', M1) = SplitVerts vert (south n) M;
       M2 \<leftarrow> upd_edge westEdge (\<lambda>e. e\<lparr>nexte := ActiveEnd\<rparr>) M1;
       Some (vert', M2)
     }
     else Some (vert, M)
   }"

text \<open>The \<^verbatim>\<open>Start\<close> case of the backward sweep.\<close>

definition SweepBack_start :: "nat \<Rightarrow> Monotones \<Rightarrow> Monotones option" where
  "SweepBack_start vert M = do {
     let westEdge0 = edgeL (verts M ! vert);
     let eastEdge0 = edgeR (verts M ! vert);
     w0 \<leftarrow> deref M westEdge0;
     let eastOf0 = nexte w0;
     n \<leftarrow> std_next M eastEdge0;
     let eastEdge1 = (if n = westEdge0 then westEdge0 else eastEdge0);
     let westEdge1 = (if n = westEdge0 then eastEdge0 else westEdge0);
     w1 \<leftarrow> deref M westEdge1;
     let westEdge = (if \<not> flipped w1 then eastEdge1 else westEdge1);
     let eastEdge = (if \<not> flipped w1 then westEdge1 else eastEdge1);
     eastOf \<leftarrow> (if \<not> flipped w1
                then (if eastOf0 = ActiveEnd then Some (active_begin M)
                      else std_next M eastOf0)
                else Some eastOf0);
     M1 \<leftarrow> splice_to_active eastOf eastEdge M;
     M2 \<leftarrow> splice_to_active eastEdge westEdge M1;
     M3 \<leftarrow> upd_edge westEdge (\<lambda>e. e\<lparr>forward := \<not> forward e\<rparr>) M2;
     M4 \<leftarrow> upd_edge eastEdge (\<lambda>e. e\<lparr>forward := \<not> forward e\<rparr>) M3;
     w \<leftarrow> deref M4 westEdge;
     let isHole = forward w;
     M5 \<leftarrow> (if isHole then do {
              westOf \<leftarrow> std_prev M4 westEdge;
              wo \<leftarrow> deref M4 westOf;
              split \<leftarrow> (if nexte wo \<noteq> ActiveEnd
                        then map_option south (deref M4 (nexte wo))
                        else do {
                          eo \<leftarrow> deref M4 eastOf;
                          Some (if snd (pos (verts M4 ! south wo))
                                     < snd (pos (verts M4 ! south eo))
                                then south eo else south wo)
                        });
              let (eastVert, M') = SplitVerts vert split M4;
              M'' \<leftarrow> upd_edge westOf (\<lambda>e. e\<lparr>nexte := ActiveEnd\<rparr>) M';
              M''' \<leftarrow> UpdateEdge eastEdge eastVert M'';
              UpdateEdge westEdge vert M'''
            }
            else Some (upd_vert vert (\<lambda>v. v\<lparr>edgeR := eastEdge\<rparr>)
                        (upd_vert vert (\<lambda>v. v\<lparr>edgeL := westEdge\<rparr>) M4)));
     M6 \<leftarrow> upd_edge westEdge (\<lambda>e. e\<lparr>nexte := ActiveEnd\<rparr>) M5;
     upd_edge eastEdge (\<lambda>e. e\<lparr>nexte := ActiveEnd\<rparr>) M6
   }"

text \<open>
  The loop body of \<^verbatim>\<open>SweepBack\<close> after the classification, up to and without
  the final \<^verbatim>\<open>SetProcessed\<close>. It returns the new value of \<^verbatim>\<open>vert\<close>.
\<close>

definition SweepBack_process ::
  "VertType \<Rightarrow> nat \<Rightarrow> Monotones \<Rightarrow> (nat \<times> Monotones) option" where
  "SweepBack_process type vert M =
     (case type of
        Merge \<Rightarrow> do {
          (vert1, M1) \<leftarrow> CheckSplit vert (edgeR (verts M ! vert)) M;
          westOf \<leftarrow> std_prev M1 (edgeL (verts M1 ! vert1));
          (_, M2) \<leftarrow> CheckSplit vert1 westOf M1;
          M3 \<leftarrow> upd_edge westOf (\<lambda>e. e\<lparr>nexte := edgeL (verts M2 ! vert1)\<rparr>) M2;
          M4 \<leftarrow> splice_to_inactive (edgeR (verts M3 ! vert1)) M3;
          M5 \<leftarrow> splice_to_inactive (edgeL (verts M4 ! vert1)) M4;
          Some (vert1, M5)
        }
      | End \<Rightarrow> do {
          (_, M1) \<leftarrow> CheckSplit vert (edgeR (verts M ! vert)) M;
          M2 \<leftarrow> splice_to_inactive (edgeR (verts M1 ! vert)) M1;
          M3 \<leftarrow> splice_to_inactive (edgeL (verts M2 ! vert)) M2;
          Some (vert, M3)
        }
      | Forward \<Rightarrow> do {
          westOf \<leftarrow> std_prev M (edgeL (verts M ! vert));
          (_, M1) \<leftarrow> CheckSplit vert westOf M;
          Some (vert, M1)
        }
      | Backward \<Rightarrow> do {
          (_, M1) \<leftarrow> CheckSplit vert (edgeR (verts M ! vert)) M;
          Some (vert, M1)
        }
      | Start \<Rightarrow> map_option (\<lambda>M'. (vert, M')) (SweepBack_start vert M)
      | Skip \<Rightarrow> Some (vert, M))"

text \<open>
  The loop state of \<^verbatim>\<open>SweepBack\<close> is the data structure and the iterator
  \<^verbatim>\<open>vert\<close>, \<open>None\<close> for \<^verbatim>\<open>monotones_.end()\<close>.
\<close>

definition SweepBack_step ::
  "bool \<Rightarrow> ExecutionParams \<Rightarrow> Monotones \<times> nat option
     \<Rightarrow> (Monotones \<times> nat option, (bool \<times> Monotones) result) step" where
  "SweepBack_step debug params s =
     (let M = fst s; vert0 = snd s in
      if vert0 = begin_of (monotones M) then Exit (Ok (False, M))
      else
        (case (case vert0 of
                 None \<Rightarrow> Some (last (monotones M))
               | Some v \<Rightarrow> before (monotones M) v) of
           None \<Rightarrow> Exit Undefined
         | Some vert \<Rightarrow>
             if Processed (verts M ! vert) then Continue (M, Some vert)
             else
               (case ProcessVert vert M of
                  None \<Rightarrow> Exit Undefined
                | Some (type, M1) \<Rightarrow>
                    OVERLAP_ASSERT debug params (type \<noteq> Skip) M1
                      (case SweepBack_process type vert M1 of
                         None \<Rightarrow> Exit Undefined
                       | Some (vert', M2) \<Rightarrow>
                           Continue (upd_vert vert' (SetProcessed True) M2, Some vert')))))"

definition SweepBack ::
  "bool \<Rightarrow> ExecutionParams \<Rightarrow> nat \<Rightarrow> Monotones \<Rightarrow> (bool \<times> Monotones) result" where
  "SweepBack debug params fuel M =
     run_loop (SweepBack_step debug params) fuel
       (M\<lparr>verts := map (SetProcessed False) (verts M)\<rparr>, None)"

subsection \<open>Construction of the vertex ring\<close>

text \<open>
  A \<^verbatim>\<open>PolyVert\<close> is a position and a mesh index. The constructor's locals
  \<^verbatim>\<open>start\<close>, \<^verbatim>\<open>last\<close>, \<^verbatim>\<open>current\<close> are not initialised, \<open>None\<close> here;
  \<^verbatim>\<open>Link\<close> on one of them is undefined behaviour. A new node is pushed with
  \<^verbatim>\<open>left\<close> and \<^verbatim>\<open>right\<close> equal to \<^verbatim>\<open>monotones_.end()\<close>; both fields are
  written by \<^verbatim>\<open>Link\<close> before the constructor leaves the polygon, and until then
  the model lets them point at the node itself.
\<close>

type_synonym PolyVert = "vec2 \<times> int"

record Monotones_locals =
  lM :: Monotones
  lstart :: "nat option"
  llast :: "nat option"
  lcurrent :: "nat option"
  lbound :: real

fun Monotones_verts :: "PolyVert list \<Rightarrow> bool \<Rightarrow> Monotones_locals \<Rightarrow> Monotones_locals option" where
  "Monotones_verts [] first s = Some s"
| "Monotones_verts (pv # rest) first s =
     (let M = lM s; cur = length (verts M);
          M1 = M\<lparr>verts := verts M @
                  [\<lparr>pos = fst pv, mesh_idx = snd pv, index = 0, left = cur, right = cur,
                    edgeL = ActiveEnd, edgeR = ActiveEnd\<rparr>],
                 monotones := monotones M @ [cur]\<rparr>;
          s1 = s\<lparr>lM := M1,
                 lbound := max (lbound s) (max \<bar>fst (fst pv)\<bar> \<bar>snd (fst pv)\<bar>),
                 lcurrent := Some cur\<rparr>
      in if first then Monotones_verts rest False (s1\<lparr>lstart := Some cur, llast := Some cur\<rparr>)
         else (case llast s of
                 None \<Rightarrow> None
               | Some l \<Rightarrow>
                   Monotones_verts rest False (s1\<lparr>lM := Link l cur M1, llast := Some cur\<rparr>)))"

fun Monotones_polys :: "PolyVert list list \<Rightarrow> Monotones_locals \<Rightarrow> Monotones_locals option" where
  "Monotones_polys [] s = Some s"
| "Monotones_polys (poly # rest) s =
     (case Monotones_verts poly True s of
        None \<Rightarrow> None
      | Some s1 \<Rightarrow>
          (case (lcurrent s1, lstart s1) of
             (Some c, Some st) \<Rightarrow> Monotones_polys rest (s1\<lparr>lM := Link c st (lM s1)\<rparr>)
           | _ \<Rightarrow> None))"

text \<open>
  Modelled from the spec: the constant \<^verbatim>\<open>kTolerance\<close> is declared outside the
  given sources; section 4.6 of the spec gives its value.
\<close>

definition kTolerance :: real where
  "kTolerance = 1 / 2 ^ 13"

text \<open>
  \<^verbatim>\<open>bound * kTolerance\<close> is a product of \<^verbatim>\<open>float\<close> values, stored in the
  \<^verbatim>\<open>float\<close> \<^verbatim>\<open>precision_\<close>: the exact product rounded to the nearest number of
  the IEEE 754 binary32 format, ties to even. \<^verbatim>\<open>kTolerance\<close> is a power of two,
  so for a \<^verbatim>\<open>float\<close> \<open>b\<close> the product is exact as long as it is a normal
  number, that is of size \<open>2 ^ - 126\<close> at least; a smaller product is rounded
  to a multiple of \<open>2 ^ - 149\<close>.
\<close>

definition round_ties_even :: "real \<Rightarrow> int" where
  "round_ties_even x =
     (let f = \<lfloor>x\<rfloor>; d = x - of_int f
      in if d < 1 / 2 then f else if 1 / 2 < d then f + 1 else if even f then f else f + 1)"

definition float_mul_kTolerance :: "real \<Rightarrow> real" where
  "float_mul_kTolerance b =
     (if 1 / 2 ^ 113 \<le> \<bar>b\<bar> then b * kTolerance
      else of_int (round_ties_even (b * 2 ^ 136)) / 2 ^ 149)"

text \<open>The constructor up to the choice of the precision, before the sweeps.\<close>

definition Monotones_init :: "PolyVert list list \<Rightarrow> real \<Rightarrow> Monotones option" where
  "Monotones_init polys precision0 =
     map_option
       (\<lambda>s. (lM s)\<lparr>precision :=
                 (if precision0 < 0 then float_mul_kTolerance (lbound s) else precision0)\<rparr>)
       (Monotones_polys polys
          \<lparr>lM = \<lparr>verts = [], monotones = [], edges = [], activeEdges = [],
                 inactiveEdges = [], precision = precision0\<rparr>,
           lstart = None, llast = None, lcurrent = None, lbound = 0\<rparr>)"

definition GetPrecision :: "Monotones \<Rightarrow> real" where
  "GetPrecision M = precision M"

subsection \<open>Sanity checks and the constructor\<close>

definition bind_result :: "'a result \<Rightarrow> ('a \<Rightarrow> 'b result) \<Rightarrow> 'b result" where
  "bind_result r f =
     (case r of Ok x \<Rightarrow> f x | Throw ex \<Rightarrow> Throw ex | Undefined \<Rightarrow> Undefined
      | OutOfFuel \<Rightarrow> OutOfFuel)"

text \<open>
  \<^verbatim>\<open>Check\<close> with \<^verbatim>\<open>params.verbose\<close> unset; its body is compiled only with
  \<^verbatim>\<open>MANIFOLD_DEBUG\<close>.
\<close>

fun Check_loop :: "nat list \<Rightarrow> Monotones \<Rightarrow> Monotones result" where
  "Check_loop [] M = Ok M"
| "Check_loop (vert # rest) M =
     (let M1 = upd_vert vert (SetProcessed False) M; V = verts M1 in
      ASSERT (right (V ! right (V ! vert)) \<noteq> vert) topologyErr
        (ASSERT (right (V ! left (V ! vert)) = vert) topologyErr
           (Check_loop rest M1)))"

definition Check :: "bool \<Rightarrow> ExecutionParams \<Rightarrow> Monotones \<Rightarrow> Monotones result" where
  "Check debug params M =
     (if debug \<and> intermediateChecks params then Check_loop (monotones M) M else Ok M)"

definition Monotones_ctor ::
  "bool \<Rightarrow> ExecutionParams \<Rightarrow> nat \<Rightarrow> PolyVert list list \<Rightarrow> real \<Rightarrow> Monotones result" where
  "Monotones_ctor debug params fuel polys precision0 =
     (case Monotones_init polys precision0 of
        None \<Rightarrow> Undefined
      | Some M0 \<Rightarrow>
          bind_result (SweepForward debug params fuel M0) (\<lambda>(fail1, M1).
            if fail1 then Ok M1
            else bind_result (Check debug params M1) (\<lambda>M2.
              bind_result (SweepBack debug params fuel M2) (\<lambda>(fail2, M3).
                if fail2 then Ok M3 else Check debug params M3))))"

subsection \<open>Triangulation of the monotones\<close>

text \<open>The inner loop of \<^verbatim>\<open>Triangulate\<close>, which walks both flanks of a monotone.\<close>

fun Triangulate_walk ::
  "nat \<Rightarrow> nat \<Rightarrow> nat \<Rightarrow> Monotones \<Rightarrow> Triangulator \<times> ivec3 list
     \<Rightarrow> (nat \<times> Monotones \<times> Triangulator \<times> ivec3 list) result" where
  "Triangulate_walk 0 vR vL M tt = OutOfFuel"
| "Triangulate_walk (Suc n) vR vL M tt =
     (if vR = vL then Ok (vR, M, tt)
      else if index (verts M ! vR) < index (verts M ! vL) then
        (case ProcessVertT (verts M) vR True False tt of
           None \<Rightarrow> Undefined
         | Some tt' \<Rightarrow>
             Triangulate_walk n (right (verts M ! vR)) vL
               (upd_vert vR (SetProcessed True) M) tt')
      else
        (case ProcessVertT (verts M) vL False False tt of
           None \<Rightarrow> Undefined
         | Some tt' \<Rightarrow>
             Triangulate_walk n vR (left (verts M ! vL))
               (upd_vert vL (SetProcessed True) M) tt'))"

text \<open>The body of the outer loop up to the validation.\<close>

definition Triangulate_monotone ::
  "nat \<Rightarrow> nat \<Rightarrow> Monotones \<Rightarrow> ivec3 list \<Rightarrow> (Monotones \<times> Triangulator \<times> ivec3 list) result" where
  "Triangulate_monotone fuel start M tris =
     (let triangulator = Triangulator_new start (precision M);
          M1 = upd_vert start (SetProcessed True) M;
          vR = right (verts M1 ! start);
          vL = left (verts M1 ! start)
      in bind_result (Triangulate_walk fuel vR vL M1 (triangulator, tris)) (\<lambda>(vR', M2, tt).
           case ProcessVertT (verts M2) vR' True True tt of
             None \<Rightarrow> Undefined
           | Some tt' \<Rightarrow> Ok (upd_vert vR' (SetProcessed True) M2, tt')))"

text \<open>
  The state of \<^verbatim>\<open>Triangulate\<close>: the data structure, the output vector, which
  the caller keeps when an exception leaves the function, and
  \<^verbatim>\<open>triangles_left\<close>. \<open>num_monotones\<close> is not a variable of the source: it
  counts the completed iterations of the outer loop.
\<close>

record Triangulate_state =
  tM :: Monotones
  triangles :: "ivec3 list"
  triangles_left :: int
  num_monotones :: nat

fun Triangulate_loop ::
  "nat \<Rightarrow> nat \<Rightarrow> nat option \<Rightarrow> Triangulate_state \<Rightarrow> unit result \<times> Triangulate_state" where
  "Triangulate_loop wfuel 0 start s = (OutOfFuel, s)"
| "Triangulate_loop wfuel (Suc n) start s =
     (case start of
        None \<Rightarrow> (Ok (), s)
      | Some st \<Rightarrow>
          (case Triangulate_monotone wfuel st (tM s) (triangles s) of
             Ok (M', triangulator, tris') \<Rightarrow>
               if \<not> NumTriangles triangulator > 0
               then (Throw topologyErr, s\<lparr>tM := M', triangles := tris'\<rparr>)
               else Triangulate_loop wfuel n
                      (find (\<lambda>v. \<not> Processed (verts M' ! v)) (monotones M'))
                      (s\<lparr>tM := M', triangles := tris',
                         triangles_left := triangles_left s - (2 + NumTriangles triangulator),
                         num_monotones := Suc (num_monotones s)\<rparr>)
           | Throw ex \<Rightarrow> (Throw ex, s)
           | Undefined \<Rightarrow> (Undefined, s)
           | OutOfFuel \<Rightarrow> (OutOfFuel, s)))"

text \<open>The first loop of \<^verbatim>\<open>Triangulate\<close> saves the sweep-line order in the nodes.\<close>

fun number_verts :: "nat list \<Rightarrow> int \<Rightarrow> VertAdj list \<Rightarrow> VertAdj list" where
  "number_verts [] i V = V"
| "number_verts (v # vs) i V = number_verts vs (i + 1) (V[v := (V ! v)\<lparr>index := i\<rparr>])"

definition Triangulate ::
  "nat \<Rightarrow> Monotones \<Rightarrow> ivec3 list \<Rightarrow> unit result \<times> Triangulate_state" where
  "Triangulate fuel M tris =
     (let M1 = M\<lparr>verts := number_verts (monotones M) 1 (verts M)\<rparr> in
      case Triangulate_loop fuel fuel (begin_of (monotones M1))
             \<lparr>tM = M1, triangles = tris, triangles_left = int (length (monotones M1)),
              num_monotones = 0\<rparr> of
        (Ok u, s) \<Rightarrow> (ASSERT (triangles_left s = 0) topologyErr (Ok ()), s)
      | (r, s) \<Rightarrow> (r, s))"

subsection \<open>Checks of the debug build\<close>

text \<open>A \<^verbatim>\<open>PolyEdge\<close> is the pair of \<^verbatim>\<open>startVert\<close> and \<^verbatim>\<open>endVert\<close>.\<close>

type_synonym PolyEdge = "int \<times> int"

fun poly_edges :: "PolyVert list \<Rightarrow> PolyEdge list" where
  "poly_edges (a # b # rest) = (snd a, snd b) # poly_edges (b # rest)"
| "poly_edges [a] = []"
| "poly_edges [] = []"

text \<open>\<^verbatim>\<open>poly.back()\<close> of an empty polygon is undefined behaviour.\<close>

definition Polygons2Edges :: "PolyVert list list \<Rightarrow> PolyEdge list option" where
  "Polygons2Edges polys =
     (if [] \<in> set polys then None
      else Some (concat (map (\<lambda>poly. poly_edges poly @ [(snd (last poly), snd (hd poly))])
                          polys)))"

definition Triangles2Edges :: "ivec3 list \<Rightarrow> PolyEdge list" where
  "Triangles2Edges tris =
     concat (map (\<lambda>(a, b, c). [(a, b), (b, c), (c, a)]) tris)"

text \<open>
  \<^verbatim>\<open>CheckTopology\<close> on half-edges. Every assertion throws the same exception,
  so the assertions of the final loop are taken together.
\<close>

definition CheckTopology_edges :: "PolyEdge list \<Rightarrow> unit result" where
  "CheckTopology_edges halfedges =
     ASSERT (length halfedges mod 2 = 0) topologyErr
       (let n_edges = length halfedges div 2;
            forward0 = filter (\<lambda>e. snd e > fst e) halfedges
        in ASSERT (length forward0 = n_edges) topologyErr
             (let backward0 = filter (\<lambda>e. snd e < fst e) halfedges
              in ASSERT (length backward0 = n_edges) topologyErr
                   (let fw = sort forward0;
                        bw = sort (map (\<lambda>e. (snd e, fst e)) backward0)
                    in ASSERT (list_all (\<lambda>i. fw ! i = bw ! i \<and>
                                  (if i > 0
                                   then fw ! (i - 1) \<noteq> fw ! i \<and> bw ! (i - 1) \<noteq> bw ! i
                                   else True))
                                [0..<n_edges]) topologyErr (Ok ()))))"

definition CheckTopology :: "ivec3 list \<Rightarrow> PolyVert list list \<Rightarrow> unit result" where
  "CheckTopology tris polys =
     (case Polygons2Edges polys of
        None \<Rightarrow> Undefined
      | Some openEdges \<Rightarrow>
          CheckTopology_edges (Triangles2Edges tris @ map (\<lambda>e. (snd e, fst e)) openEdges))"

text \<open>
  \<^verbatim>\<open>CheckGeometry\<close>: \<open>vertPos\<close> is the map from mesh index to position, a later
  vertex overwriting an earlier one; a missing index reads as the zero vector.
\<close>

definition vertPos :: "PolyVert list list \<Rightarrow> int \<Rightarrow> vec2" where
  "vertPos polys i =
     (case map_of (rev (map (\<lambda>pv. (snd pv, fst pv)) (concat polys))) i of
        None \<Rightarrow> (0, 0) | Some p \<Rightarrow> p)"

definition CheckGeometry :: "ivec3 list \<Rightarrow> PolyVert list list \<Rightarrow> real \<Rightarrow> unit result" where
  "CheckGeometry tris polys prec =
     ASSERT (list_all (\<lambda>(a, b, c).
                CCW (vertPos polys a) (vertPos polys b) (vertPos polys c) prec \<ge> 0) tris)
       geometryErr (Ok ())"

subsection \<open>The entry point\<close>

text \<open>
  The \<^verbatim>\<open>try\<close> block of \<^verbatim>\<open>TriangulateIdx\<close>: how it ends, and the content of
  the vector \<^verbatim>\<open>triangles\<close> at that moment.
\<close>

definition TriangulateIdx_try ::
  "bool \<Rightarrow> ExecutionParams \<Rightarrow> nat \<Rightarrow> PolyVert list list \<Rightarrow> real
     \<Rightarrow> unit result \<times> ivec3 list" where
  "TriangulateIdx_try debug params fuel polys precision0 =
     (case Monotones_ctor debug params fuel polys precision0 of
        Ok M \<Rightarrow>
          (case Triangulate fuel M [] of
             (Ok u, s) \<Rightarrow>
               ((if debug \<and> intermediateChecks params then
                   bind_result (CheckTopology (triangles s) polys) (\<lambda>u.
                     if \<not> processOverlaps params
                     then CheckGeometry (triangles s) polys (2 * GetPrecision (tM s))
                     else Ok ())
                 else Ok ()),
                triangles s)
           | (r, s) \<Rightarrow> (r, triangles s))
      | Throw ex \<Rightarrow> (Throw ex, [])
      | Undefined \<Rightarrow> (Undefined, [])
      | OutOfFuel \<Rightarrow> (OutOfFuel, []))"

text \<open>
  With \<^verbatim>\<open>MANIFOLD_DEBUG\<close> both handlers rethrow; without it the only handler
  catches \<^verbatim>\<open>std::exception\<close>, the base of both error classes, and the function
  returns the vector.
\<close>

definition TriangulateIdx ::
  "bool \<Rightarrow> ExecutionParams \<Rightarrow> nat \<Rightarrow> PolyVert list list \<Rightarrow> real \<Rightarrow> ivec3 list result" where
  "TriangulateIdx debug params fuel polys precision0 =
     (case TriangulateIdx_try debug params fuel polys precision0 of
        (Ok u, tris) \<Rightarrow> Ok tris
      | (Throw ex, tris) \<Rightarrow> if debug then Throw ex else Ok tris
      | (Undefined, tris) \<Rightarrow> Undefined
      | (OutOfFuel, tris) \<Rightarrow> OutOfFuel)"

text \<open>\<^verbatim>\<open>Triangulate\<close> on polygons without indices numbers the vertices in order.\<close>

fun index_polys :: "vec2 list list \<Rightarrow> int \<Rightarrow> PolyVert list list" where
  "index_polys [] idx = []"
| "index_polys (poly # rest) idx =
     zip poly (map int [nat idx..<nat idx + length poly])
       # index_polys rest (idx + int (length poly))"

definition Triangulate_polygons ::
  "bool \<Rightarrow> ExecutionParams \<Rightarrow> nat \<Rightarrow> vec2 list list \<Rightarrow> real \<Rightarrow> ivec3 list result" where
  "Triangulate_polygons debug params fuel polygons precision0 =
     TriangulateIdx debug params fuel (index_polys polygons 0) precision0"

section \<open>Notions used in the properties\<close>

text \<open>
  The triple that \<^verbatim>\<open>AddTriangle\<close> pushes for the arguments \<open>v0\<close>, \<open>v1\<close>, \<open>v2\<close>
  when \<^verbatim>\<open>onRight_\<close> has the value \<open>onR\<close>.
\<close>

definition emit :: "VertAdj list \<Rightarrow> bool \<Rightarrow> nat \<Rightarrow> nat \<Rightarrow> nat \<Rightarrow> ivec3" where
  "emit V onR v0 v1 v2 =
     (if onR then (mesh_idx (V ! v0), mesh_idx (V ! v1), mesh_idx (V ! v2))
      else (mesh_idx (V ! v0), mesh_idx (V ! v2), mesh_idx (V ! v1)))"

text \<open>The largest \<open>|x|\<close> or \<open>|y|\<close> over all input vertices, in the spec's words.\<close>

definition maxCoord :: "PolyVert list list \<Rightarrow> real" where
  "maxCoord polys =
     Max (set (concat (map (\<lambda>pv. [\<bar>fst (fst pv)\<bar>, \<bar>snd (fst pv)\<bar>]) (concat polys))))"





text \<open>Two vertices of equal \<open>y\<close> and different \<open>x\<close>.\<close>

definition tie_fixture :: "VertAdj list" where
  "tie_fixture =
     [\<lparr>pos = (0, 0), mesh_idx = 0, index = 0, left = 1, right = 1,
       edgeL = ActiveEnd, edgeR = ActiveEnd\<rparr>,
      \<lparr>pos = (1, 0), mesh_idx = 1, index = 0, left = 0, right = 0,
       edgeL = ActiveEnd, edgeR = ActiveEnd\<rparr>]"

text \<open>The absolute values of all coordinates of a list of vertices.\<close>

definition coords :: "PolyVert list \<Rightarrow> real list" where
  "coords pvs = concat (map (\<lambda>pv. [\<bar>fst (fst pv)\<bar>, \<bar>snd (fst pv)\<bar>]) pvs)"

text \<open>
  What the forward sweep and the triangulator leave alone: the position, the
  mesh index and the two links of every node, and the precision.
\<close>

definition ring_of :: "Monotones \<Rightarrow> (vec2 \<times> int \<times> nat \<times> nat) list \<times> real" where
  "ring_of M = (map (\<lambda>v. (pos v, mesh_idx v, left v, right v)) (verts M), precision M)"


text \<open>
  The way a sweep ends when an overlap is detected: the exception in a debug
  build in strict mode, the soft-fail return otherwise.
\<close>

definition overlap_failure :: "bool \<Rightarrow> ExecutionParams \<Rightarrow> Monotones \<Rightarrow> (bool \<times> Monotones) result" where
  "overlap_failure debug params M =
     (if debug \<and> \<not> processOverlaps params then Throw geometryErr else Ok (True, M))"

text \<open>
  The type that the forward sweep gives a vertex: the classification, and the
  placement for a start.
\<close>

definition SweepForward_type :: "nat \<Rightarrow> Monotones \<Rightarrow> (VertType \<times> Monotones) option" where
  "SweepForward_type vert M =
     (case ProcessVert vert M of
        None \<Rightarrow> None
      | Some (type0, M1) \<Rightarrow> if type0 = Start then PlaceStart vert M1 else Some (type0, M1))"

text \<open>
  An overlap is detected in an iteration of the forward sweep when the vertex
  chosen is unprocessed and either is past the most recently skipped vertex,
  or is given the type \<^verbatim>\<open>Skip\<close> while \<^verbatim>\<open>insertAt\<close> is the final vertex of the
  ring or nothing is queued.
\<close>

definition overlap_detected :: "SweepForward_state \<Rightarrow> bool" where
  "overlap_detected s =
     (case insertAt s of
        None \<Rightarrow> False
      | Some ia \<Rightarrow>
          (case SweepForward_choose ia s of
             (vert, s1) \<Rightarrow>
               let M = sM s1; V = verts M in
               \<not> Processed (V ! vert) \<and>
               ((skipped s1 \<noteq> [] \<and> IsPast (V ! vert) (V ! hd (skipped s1)) (precision M)) \<or>
                (map_option fst (SweepForward_type vert M) = Some Skip \<and>
                 (case insertAt s1 of
                    None \<Rightarrow> False
                  | Some ia1 \<Rightarrow>
                      after (monotones M) ia1 = None \<or>
                      (nextAttached s1 = [] \<and> starts s1 = []))))))"

text \<open>A clockwise square, its ring, and strict parameters.\<close>

definition cw_square :: "PolyVert list list" where
  "cw_square = [[((0, 0), 0), ((0, 1), 1), ((1, 1), 2), ((1, 0), 3)]]"

definition strict_params :: ExecutionParams where
  "strict_params = \<lparr>intermediateChecks = False, verbose = False, processOverlaps = False,
                      suppressErrors = False\<rparr>"

definition cw_square_ring :: Monotones where
  "cw_square_ring = the (Monotones_init cw_square (1 / 10000))"



text \<open>
  The invariant of the vertex ring: for every node \<open>v\<close> the links point at
  nodes, \<open>v.left.right\<close> is \<open>v\<close> and \<open>v.right.left\<close> is \<open>v\<close>. It is stated on
  the lists of the \<^verbatim>\<open>left\<close> and the \<^verbatim>\<open>right\<close> fields of all nodes.
\<close>

definition ring_lists :: "nat list \<Rightarrow> nat list \<Rightarrow> bool" where
  "ring_lists ls rs =
     (length ls = length rs \<and>
      list_all (\<lambda>v. ls ! v < length rs \<and> rs ! v < length rs \<and>
                     rs ! (ls ! v) = v \<and> ls ! (rs ! v) = v) [0..<length rs])"

definition lefts :: "Monotones \<Rightarrow> nat list" where
  "lefts M = map left (verts M)"

definition rights :: "Monotones \<Rightarrow> nat list" where
  "rights M = map right (verts M)"

definition ring_ok :: "Monotones \<Rightarrow> bool" where
  "ring_ok M = ring_lists (lefts M) (rights M)"



section \<open>Properties\<close>

subsection \<open>The triangulator\<close>

lemma AddTriangle_eq:
  "AddTriangle V (t, tris) v0 v1 v2 =
     (t\<lparr>triangles_output := triangles_output t + 1\<rparr>, tris @ [emit V (onRight t) v0 v1 v2])"
  by (simp add: AddTriangle_def emit_def Let_def)

lemma different_chain_eq:
  "different_chain V (t, tris) vi v_last chain =
     (t\<lparr>triangles_output := triangles_output t + int (length chain)\<rparr>,
      tris @ map (\<lambda>(a, b). emit V (onRight t) vi a b) (zip (v_last # chain) chain))"
proof (induction chain arbitrary: t tris v_last)
  case Nil
  then show ?case by simp
next
  case (Cons vj rest)
  show ?case
    by (simp add: AddTriangle_eq Cons.IH add.commute add.left_commute)
qed

lemma same_chain_eq:
  "\<exists>k \<le> length chain.
     same_chain V (t, tris) vi v_top chain =
       ((t\<lparr>triangles_output := triangles_output t + int k\<rparr>,
         tris @ map (\<lambda>(a, b). emit V (onRight t) vi b a) (take k (zip (v_top # chain) chain))),
        (v_top # chain) ! k, drop k chain)"
proof (induction chain arbitrary: t tris v_top)
  case Nil
  then show ?case by simp
next
  case (Cons vj rest)
  let ?c = "CCW (pos (V ! vi)) (pos (V ! vj)) (pos (V ! v_top)) (precisionT t)"
  show ?case
  proof (cases "?c = (if onRight t then 1 else - 1) \<or> ?c = 0")
    case False
    then have "same_chain V (t, tris) vi v_top (vj # rest) = ((t, tris), v_top, vj # rest)"
      by (simp add: Let_def)
    then show ?thesis by (intro exI[of _ 0]) simp
  next
    case True
    obtain k where k: "k \<le> length rest"
      "same_chain V (t\<lparr>triangles_output := triangles_output t + 1\<rparr>,
                     tris @ [emit V (onRight t) vi vj v_top]) vi vj rest =
         ((t\<lparr>triangles_output := triangles_output t + 1 + int k\<rparr>,
           (tris @ [emit V (onRight t) vi vj v_top]) @
             map (\<lambda>(a, b). emit V (onRight t) vi b a) (take k (zip (vj # rest) rest))),
          (vj # rest) ! k, drop k rest)"
      using Cons.IH[of "t\<lparr>triangles_output := triangles_output t + 1\<rparr>"
                      "tris @ [emit V (onRight t) vi vj v_top]" vj]
      by auto
    have "same_chain V (t, tris) vi v_top (vj # rest) =
            same_chain V (AddTriangle V (t, tris) vi vj v_top) vi vj rest"
      using True by (simp add: Let_def)
    then show ?thesis
      using k by (intro exI[of _ "Suc k"]) (simp add: AddTriangle_eq add.assoc)
  qed
qed


lemma ProcessVertT_different:
  assumes "reflex_chain t = v_top # vj # rest" "\<not> (onRight t = onR \<and> \<not> lastv)"
  shows "ProcessVertT V vi onR lastv (t, tris) =
     Some (t\<lparr>onRight := \<not> onRight t,
              triangles_output := triangles_output t + int (length (vj # rest)),
              reflex_chain := [vi, v_top], other_side := v_top\<rparr>,
           tris @ map (\<lambda>(a, b). emit V (\<not> onRight t) vi a b)
                    (zip (v_top # vj # rest) (vj # rest)))"
proof -
  have "different_chain V (t\<lparr>onRight := \<not> onRight t\<rparr>, tris) vi v_top (vj # rest) =
     (t\<lparr>onRight := \<not> onRight t,
        triangles_output := triangles_output t + int (length (vj # rest))\<rparr>,
      tris @ map (\<lambda>(a, b). emit V (\<not> onRight t) vi a b)
               (zip (v_top # vj # rest) (vj # rest)))"
    by (simp add: different_chain_eq del: different_chain.simps zip_Cons_Cons)
  then show ?thesis
    using assms by (auto simp add: ProcessVertT_def simp del: different_chain.simps same_chain.simps)
qed

lemma ProcessVertT_same:
  assumes "reflex_chain t = v_top # vj # rest" "onRight t = onR" "\<not> lastv"
  shows "\<exists>k \<le> length (vj # rest). ProcessVertT V vi onR lastv (t, tris) =
     Some (t\<lparr>triangles_output := triangles_output t + int k,
              reflex_chain := vi # (v_top # vj # rest) ! k # drop k (vj # rest)\<rparr>,
           tris @ map (\<lambda>(a, b). emit V (onRight t) vi b a)
                    (take k (zip (v_top # vj # rest) (vj # rest))))"
proof -
  obtain k where k: "k \<le> length (vj # rest)"
    "same_chain V (t, tris) vi v_top (vj # rest) =
       ((t\<lparr>triangles_output := triangles_output t + int k\<rparr>,
         tris @ map (\<lambda>(a, b). emit V (onRight t) vi b a)
                  (take k (zip (v_top # vj # rest) (vj # rest)))),
        (v_top # vj # rest) ! k, drop k (vj # rest))"
    using same_chain_eq[of "vj # rest" V t tris vi v_top] by blast
  show ?thesis
    by (rule exI[of _ k])
       (use k assms in \<open>simp add: ProcessVertT_def del: different_chain.simps same_chain.simps\<close>)
qed

text \<open>
  Claim C1, amended. Every triangle of the triangulator is pushed by
  \<^verbatim>\<open>AddTriangle\<close>, and the triple pushed for \<open>v0\<close>, \<open>v1\<close>, \<open>v2\<close> is
  \<open>(v0, v1, v2)\<close> when \<^verbatim>\<open>onRight_\<close> is true and \<open>(v0, v2, v1)\<close> when it is
  false: the two are swapped exactly when the chain is not on the right. In
  \<^verbatim>\<open>ProcessVert\<close> the same-chain branch passes \<open>(vi, vj, v_top)\<close> and the
  other branch, which first flips \<^verbatim>\<open>onRight_\<close>, passes \<open>(vi, v_last, vj)\<close>.
\<close>

theorem AddTriangle_swaps_unless_onRight:
  "AddTriangle V (t, tris) v0 v1 v2 =
     (t\<lparr>triangles_output := triangles_output t + 1\<rparr>,
      tris @ [if onRight t then (mesh_idx (V ! v0), mesh_idx (V ! v1), mesh_idx (V ! v2))
              else (mesh_idx (V ! v0), mesh_idx (V ! v2), mesh_idx (V ! v1))])
   \<and> (case reflex_chain t of
         [] \<Rightarrow> ProcessVertT V vi onR lastv (t, tris) = None
       | [v_top] \<Rightarrow> ProcessVertT V vi onR lastv (t, tris)
                      = Some (t\<lparr>reflex_chain := [vi, v_top], onRight := onR\<rparr>, tris)
       | v_top # vj # rest \<Rightarrow>
           (\<exists>t' new. ProcessVertT V vi onR lastv (t, tris) = Some (t', tris @ new) \<and>
              (if onRight t = onR \<and> \<not> lastv
               then onRight t' = onRight t \<and>
                    (\<exists>k. new = map (\<lambda>(top, j). emit V (onRight t') vi j top)
                                  (take k (zip (v_top # vj # rest) (vj # rest))))
               else onRight t' = (\<not> onRight t) \<and>
                    new = map (\<lambda>(lst, j). emit V (onRight t') vi lst j)
                            (zip (v_top # vj # rest) (vj # rest)))))"
proof (intro conjI)
  show "AddTriangle V (t, tris) v0 v1 v2 =
     (t\<lparr>triangles_output := triangles_output t + 1\<rparr>,
      tris @ [if onRight t then (mesh_idx (V ! v0), mesh_idx (V ! v1), mesh_idx (V ! v2))
              else (mesh_idx (V ! v0), mesh_idx (V ! v2), mesh_idx (V ! v1))])"
    by (simp add: AddTriangle_eq emit_def)
next
  show "case reflex_chain t of
         [] \<Rightarrow> ProcessVertT V vi onR lastv (t, tris) = None
       | [v_top] \<Rightarrow> ProcessVertT V vi onR lastv (t, tris)
                      = Some (t\<lparr>reflex_chain := [vi, v_top], onRight := onR\<rparr>, tris)
       | v_top # vj # rest \<Rightarrow>
           (\<exists>t' new. ProcessVertT V vi onR lastv (t, tris) = Some (t', tris @ new) \<and>
              (if onRight t = onR \<and> \<not> lastv
               then onRight t' = onRight t \<and>
                    (\<exists>k. new = map (\<lambda>(top, j). emit V (onRight t') vi j top)
                                  (take k (zip (v_top # vj # rest) (vj # rest))))
               else onRight t' = (\<not> onRight t) \<and>
                    new = map (\<lambda>(lst, j). emit V (onRight t') vi lst j)
                            (zip (v_top # vj # rest) (vj # rest))))"
  proof (cases "reflex_chain t")
    case Nil
    then show ?thesis by (simp add: ProcessVertT_def)
  next
    case (Cons v_top c1)
    show ?thesis
    proof (cases c1)
      case Nil
      with Cons show ?thesis by (simp add: ProcessVertT_def)
    next
      case (Cons vj rest)
      have c: "reflex_chain t = v_top # vj # rest"
        using \<open>reflex_chain t = v_top # c1\<close> Cons by simp
      show ?thesis
      proof (cases "onRight t = onR \<and> \<not> lastv")
        case True
        obtain k where "ProcessVertT V vi onR lastv (t, tris) =
            Some (t\<lparr>triangles_output := triangles_output t + int k,
              reflex_chain := vi # (v_top # vj # rest) ! k # drop k (vj # rest)\<rparr>,
              tris @ map (\<lambda>(a, b). emit V (onRight t) vi b a)
                    (take k (zip (v_top # vj # rest) (vj # rest))))"
          using ProcessVertT_same[OF c, of onR lastv V vi tris] True by blast
        then show ?thesis using c True
          by (auto simp del: zip_Cons_Cons)
      next
        case False
        show ?thesis
          using c False ProcessVertT_different[OF c False, of V vi tris]
          by (auto simp del: zip_Cons_Cons)
      qed
    qed
  qed
qed

text \<open>
  With \<^verbatim>\<open>onRight_\<close> true and mesh indices 10, 11, 12 the triple is pushed as
  it is passed, not swapped as claim C1 has it.
\<close>

theorem AddTriangle_onRight_not_swapped:
 "onRight ((Triangulator_new 0 0)\<lparr>onRight := True\<rparr>) \<and>
  snd (AddTriangle
    [\<lparr>pos = (0,0), mesh_idx = 10, index = 0, left = 2, right = 1, edgeL = ActiveEnd, edgeR = ActiveEnd\<rparr>,
     \<lparr>pos = (1,0), mesh_idx = 11, index = 0, left = 0, right = 2, edgeL = ActiveEnd, edgeR = ActiveEnd\<rparr>,
     \<lparr>pos = (0,1), mesh_idx = 12, index = 0, left = 1, right = 0, edgeL = ActiveEnd, edgeR = ActiveEnd\<rparr>]
    ((Triangulator_new 0 0)\<lparr>onRight := True\<rparr>, []) 0 1 2) = [(10, 11, 12)]"
  by (simp add: AddTriangle_def Triangulator_new_def)

subsection \<open>The vertex classifier\<close>



subsection \<open>The order of the queue\<close>

text \<open>
  Claim C6, amended. The comparison of the priority queue and of the sort of
  the start candidates looks at \<open>y\<close> only: the top of the queue has the least
  \<open>y\<close>, the start candidates are sorted by \<open>y\<close>, and of two vertices of equal
  \<open>y\<close> neither comes before the other, whatever their \<open>x\<close>.
\<close>

theorem queue_orders_by_y_only:
  "(cmp V a b \<longleftrightarrow> snd (pos (V ! b)) < snd (pos (V ! a)))
   \<and> (less_VertAdj v w \<longleftrightarrow> snd (pos v) < snd (pos w))
   \<and> (snd (pos (V ! a)) = snd (pos (V ! b)) \<longrightarrow> \<not> cmp V a b \<and> \<not> cmp V b a)
   \<and> (q \<noteq> [] \<longrightarrow> pq_top V q \<in> set q \<and>
         (\<forall>u \<in> set q. snd (pos (V ! pq_top V q)) \<le> snd (pos (V ! u))))
   \<and> sorted (map (\<lambda>u. snd (pos (verts M ! u))) (SweepForward_starts M))"
proof (intro conjI impI)
  assume q: "q \<noteq> []"
  show "pq_top V q \<in> set q"
    using q by (simp add: pq_top_def arg_min_list_in)
  have "snd (pos (V ! pq_top V q)) = Min ((\<lambda>v. snd (pos (V ! v))) ` set q)"
    using f_arg_min_list_f[OF q, of "\<lambda>v. snd (pos (V ! v))"] by (simp add: pq_top_def)
  then show "\<forall>u \<in> set q. snd (pos (V ! pq_top V q)) \<le> snd (pos (V ! u))"
    by simp
qed (simp_all add: cmp_def less_VertAdj_def SweepForward_starts_def)

theorem queue_orders_by_y_only_witness:
  "snd (pos (tie_fixture ! 0)) = snd (pos (tie_fixture ! 1))
   \<and> \<not> cmp tie_fixture 0 1 \<and> \<not> cmp tie_fixture 1 0
   \<and> pq_top tie_fixture [1, 0] \<in> set [1, 0]
   \<and> snd (pos (tie_fixture ! pq_top tie_fixture [1, 0])) \<le> snd (pos (tie_fixture ! 0))"
proof -
  have y: "snd (pos (tie_fixture ! 0)) = snd (pos (tie_fixture ! 1))"
    by (simp add: tie_fixture_def)
  have q: "[1, 0] \<noteq> ([] :: nat list)" by simp
  show ?thesis
    using y q queue_orders_by_y_only[of tie_fixture 0 1 _ _ "[1, 0]"] by simp
qed

text \<open>
  Vertex 0 has the smaller \<open>x\<close> and the same \<open>y\<close> as vertex 1, and is not
  ordered before it, against claim C6: the comparison is false both ways, and
  the queue of the model, filled with 1 and then 0, has 1 at its top.
\<close>

theorem equal_y_not_ordered_by_x:
  "fst (pos (tie_fixture ! 0)) < fst (pos (tie_fixture ! 1))
   \<and> snd (pos (tie_fixture ! 0)) = snd (pos (tie_fixture ! 1))
   \<and> \<not> less_VertAdj (tie_fixture ! 0) (tie_fixture ! 1)
   \<and> \<not> less_VertAdj (tie_fixture ! 1) (tie_fixture ! 0)
   \<and> \<not> cmp tie_fixture 0 1 \<and> \<not> cmp tie_fixture 1 0
   \<and> pq_top tie_fixture (pq_push 0 (pq_push 1 [])) = 1"
  by (simp add: tie_fixture_def less_VertAdj_def cmp_def pq_top_def pq_push_def)

subsection \<open>The choice of the precision\<close>

lemma Monotones_verts_bound:
  "Monotones_verts poly first s = Some s' \<Longrightarrow>
     lbound s' = fold max (coords poly) (lbound s)"
proof (induction poly arbitrary: first s)
  case Nil
  then show ?case by (simp add: coords_def)
next
  case (Cons pv rest)
  show ?case
  proof (cases first)
    case True
    with Cons.prems Cons.IH[of False _] show ?thesis
      by (auto simp: Let_def coords_def max.commute max.left_commute max.assoc)
  next
    case False
    with Cons.prems Cons.IH[of False _] show ?thesis
      by (auto simp: Let_def coords_def max.commute max.left_commute max.assoc split: option.splits)
  qed
qed

lemma Monotones_polys_bound:
  "Monotones_polys polys s = Some s' \<Longrightarrow>
     lbound s' = fold max (coords (concat polys)) (lbound s)"
proof (induction polys arbitrary: s)
  case Nil
  then show ?case by (simp add: coords_def)
next
  case (Cons poly rest)
  from Cons.prems obtain s1 c st where
    s1: "Monotones_verts poly True s = Some s1" and
    r: "Monotones_polys rest (s1\<lparr>lM := Link c st (lM s1)\<rparr>) = Some s'"
    by (auto split: option.splits)
  from Cons.IH[OF r] Monotones_verts_bound[OF s1]
  show ?case by (simp add: coords_def)
qed

lemma fold_max_Max:
  fixes b :: real
  shows "fold max ys b = Max (insert b (set ys))"
  using Max.set_eq_fold[of b ys] by simp

lemma Max_coords:
  assumes "pvs \<noteq> []"
  shows "Max (insert 0 (set (coords pvs))) = Max (set (coords pvs))"
proof -
  obtain pv rest where p: "pvs = pv # rest" using assms by (cases pvs) auto
  have ne: "set (coords pvs) \<noteq> {}" by (simp add: p coords_def)
  have "\<bar>fst (fst pv)\<bar> \<in> set (coords pvs)" by (simp add: p coords_def)
  then have "\<bar>fst (fst pv)\<bar> \<le> Max (set (coords pvs))" by simp
  then have "0 \<le> Max (set (coords pvs))" by linarith
  then show ?thesis using ne by (simp add: max_def)
qed

text \<open>
  Claim C7, amended. When the constructor has built the ring, a negative
  precision of the caller is replaced by the \<^verbatim>\<open>float\<close> product of the largest
  \<open>|x|\<close> or \<open>|y|\<close> of the input and \<^verbatim>\<open>kTolerance\<close>, which is \<open>1 / 2 ^ 13\<close>.
  This is the product of the two numbers when the largest coordinate is
  \<open>1 / 2 ^ 113\<close> at least, or 0; for a smaller one it is the product rounded
  to a multiple of \<open>1 / 2 ^ 149\<close>. With no input vertex the bound is 0. A
  precision that is not negative is kept.
\<close>

theorem auto_precision:
  assumes "Monotones_init polys eps = Some M"
  shows "(eps < 0 \<and> concat polys \<noteq> [] \<longrightarrow>
            GetPrecision M = float_mul_kTolerance (maxCoord polys))
       \<and> (eps < 0 \<and> concat polys \<noteq> [] \<and>
          (1 / 2 ^ 113 \<le> maxCoord polys \<or> maxCoord polys = 0) \<longrightarrow>
            GetPrecision M = maxCoord polys * kTolerance)
       \<and> (eps < 0 \<and> concat polys \<noteq> [] \<and> maxCoord polys < 1 / 2 ^ 113 \<longrightarrow>
            GetPrecision M = of_int (round_ties_even (maxCoord polys * 2 ^ 136)) / 2 ^ 149)
       \<and> (eps < 0 \<and> concat polys = [] \<longrightarrow> GetPrecision M = 0)
       \<and> (0 \<le> eps \<longrightarrow> GetPrecision M = eps)
       \<and> kTolerance = 1 / 2 ^ 13"
proof -
  from assms obtain s where
    s: "Monotones_polys polys
          \<lparr>lM = \<lparr>verts = [], monotones = [], edges = [], activeEdges = [],
                 inactiveEdges = [], precision = eps\<rparr>,
           lstart = None, llast = None, lcurrent = None, lbound = 0\<rparr> = Some s"
    and M: "M = (lM s)\<lparr>precision :=
                  (if eps < 0 then float_mul_kTolerance (lbound s) else eps)\<rparr>"
    by (auto simp: Monotones_init_def)
  have b: "lbound s = Max (insert 0 (set (coords (concat polys))))"
    using Monotones_polys_bound[OF s] by (simp add: fold_max_Max)
  have mc: "maxCoord polys = Max (set (coords (concat polys)))"
    by (simp add: maxCoord_def coords_def)
  have e: "lbound s = 0" if "concat polys = []"
  proof -
    have "coords (concat polys) = []" unfolding that by (simp add: coords_def)
    then show ?thesis using b by simp
  qed
  have n: "concat polys \<noteq> [] \<Longrightarrow> lbound s = maxCoord polys"
    using b mc Max_coords[of "concat polys"] by simp
  have nn: "concat polys \<noteq> [] \<Longrightarrow> 0 \<le> maxCoord polys"
    using b n by (metis Max_ge finite.insertI finite_set insertI1)
  have z: "float_mul_kTolerance 0 = 0"
    by (simp add: float_mul_kTolerance_def round_ties_even_def)
  have p: "GetPrecision M = (if eps < 0 then float_mul_kTolerance (lbound s) else eps)"
    using M by (simp add: GetPrecision_def)
  have big: "float_mul_kTolerance (maxCoord polys) = maxCoord polys * kTolerance"
    if "1 / 2 ^ 113 \<le> maxCoord polys \<or> maxCoord polys = 0"
  proof (cases "maxCoord polys = 0")
    case True
    then show ?thesis using z by simp
  next
    case False
    with that have "1 / 2 ^ 113 \<le> \<bar>maxCoord polys\<bar>" by linarith
    then show ?thesis unfolding float_mul_kTolerance_def by (simp only: if_True)
  qed
  have small: "float_mul_kTolerance (maxCoord polys)
                 = of_int (round_ties_even (maxCoord polys * 2 ^ 136)) / 2 ^ 149"
    if "maxCoord polys < 1 / 2 ^ 113" "concat polys \<noteq> []"
  proof -
    have "\<not> 1 / 2 ^ 113 \<le> \<bar>maxCoord polys\<bar>" using that(1) nn[OF that(2)] by linarith
    then show ?thesis unfolding float_mul_kTolerance_def by (simp only: if_False)
  qed
  show ?thesis
  proof (intro conjI impI)
    assume "eps < 0 \<and> concat polys \<noteq> []"
    then show "GetPrecision M = float_mul_kTolerance (maxCoord polys)"
      using p n by simp
  next
    assume a: "eps < 0 \<and> concat polys \<noteq> [] \<and>
          (1 / 2 ^ 113 \<le> maxCoord polys \<or> maxCoord polys = 0)"
    then have "GetPrecision M = float_mul_kTolerance (maxCoord polys)" using p n by simp
    also have "\<dots> = maxCoord polys * kTolerance" using a by (intro big) simp
    finally show "GetPrecision M = maxCoord polys * kTolerance" .
  next
    assume a: "eps < 0 \<and> concat polys \<noteq> [] \<and> maxCoord polys < 1 / 2 ^ 113"
    then have "GetPrecision M = float_mul_kTolerance (maxCoord polys)" using p n by simp
    also have "\<dots> = of_int (round_ties_even (maxCoord polys * 2 ^ 136)) / 2 ^ 149"
      using a by (intro small) simp_all
    finally show "GetPrecision M
                    = of_int (round_ties_even (maxCoord polys * 2 ^ 136)) / 2 ^ 149" .
  next
    assume "eps < 0 \<and> concat polys = []"
    then show "GetPrecision M = 0" using p e z by simp
  next
    assume "0 \<le> eps"
    then show "GetPrecision M = eps" using p by simp
  next
    show "kTolerance = 1 / 2 ^ 13" by (simp add: kTolerance_def)
  qed
qed

theorem auto_precision_witness:
  "Monotones_init [[((3, - 4), 0), ((1, 2), 1), ((0, 1), 2)]] (- 1) \<noteq> None
   \<and> GetPrecision (the (Monotones_init [[((3, - 4), 0), ((1, 2), 1), ((0, 1), 2)]] (- 1)))
       = 4 / 2 ^ 13
   \<and> GetPrecision (the (Monotones_init [[((3, - 4), 0), ((1, 2), 1), ((0, 1), 2)]] (1 / 10)))
       = 1 / 10"
proof -
  obtain M where M: "Monotones_init [[((3, - 4), 0), ((1, 2), 1), ((0, 1), 2)]] (- 1) = Some M"
    by (simp add: Monotones_init_def Let_def)
  obtain M' where M': "Monotones_init [[((3, - 4), 0), ((1, 2), 1), ((0, 1), 2)]] (1 / 10) = Some M'"
    by (simp add: Monotones_init_def Let_def)
  have mc: "maxCoord [[((3, - 4), 0), ((1, 2), 1), ((0, 1), 2)]] = 4"
    by (simp add: maxCoord_def)
  show ?thesis
    using auto_precision[OF M] auto_precision[OF M'] M M' mc
    by (simp add: kTolerance_def)
qed

text \<open>
  A triangle with the largest coordinate \<open>1 / 2 ^ 140\<close>, which is a
  \<^verbatim>\<open>float\<close>, and a negative precision of the caller: the product with
  \<^verbatim>\<open>kTolerance\<close> is \<open>1 / 2 ^ 153\<close>, the precision used is 0, against claim C7.
\<close>

theorem auto_precision_underflows:
  "maxCoord [[((0, 0), 0), ((1 / 2 ^ 140, 0), 1), ((0, 1 / 2 ^ 140), 2)]] * kTolerance
     = 1 / 2 ^ 153
   \<and> map_option GetPrecision
       (Monotones_init [[((0, 0), 0), ((1 / 2 ^ 140, 0), 1), ((0, 1 / 2 ^ 140), 2)]] (- 1))
     = Some 0"
  by (simp add: maxCoord_def kTolerance_def Monotones_init_def Let_def GetPrecision_def
      float_mul_kTolerance_def round_ties_even_def Link_def upd_vert_def)

subsection \<open>Exceptions at the entry point\<close>

text \<open>
  Claim C10. Compiled without \<^verbatim>\<open>MANIFOLD_DEBUG\<close>, \<^verbatim>\<open>TriangulateIdx\<close> never
  throws: when its \<^verbatim>\<open>try\<close> block ends with an exception it returns the
  triangles pushed so far, as it does when the block ends normally.
\<close>

theorem release_build_swallows_exceptions:
  "TriangulateIdx False params fuel polys eps \<noteq> Throw ex
   \<and> (TriangulateIdx_try False params fuel polys eps = (Throw ex, tris)
        \<longrightarrow> TriangulateIdx False params fuel polys eps = Ok tris)
   \<and> (TriangulateIdx_try False params fuel polys eps = (Ok u, tris)
        \<longrightarrow> TriangulateIdx False params fuel polys eps = Ok tris)"
  by (auto simp: TriangulateIdx_def split: prod.splits result.splits)

theorem release_build_swallows_exceptions_witness:
  "TriangulateIdx_try False
     \<lparr>intermediateChecks = False, verbose = False, processOverlaps = False,
      suppressErrors = False\<rparr> 100
     [[((0, 0), 0), ((1, 0), 1), ((0, 1), 2)], [((5, 5), 3), ((6, 6), 4)]] (1 / 10000)
     = (Throw topologyErr, [(2, 0, 1)])
   \<and> TriangulateIdx False
     \<lparr>intermediateChecks = False, verbose = False, processOverlaps = False,
      suppressErrors = False\<rparr> 100
     [[((0, 0), 0), ((1, 0), 1), ((0, 1), 2)], [((5, 5), 3), ((6, 6), 4)]] (1 / 10000)
     = Ok [(2, 0, 1)]"
proof -
  have h: "TriangulateIdx_try False
     \<lparr>intermediateChecks = False, verbose = False, processOverlaps = False,
      suppressErrors = False\<rparr> 100
     [[((0, 0), 0), ((1, 0), 1), ((0, 1), 2)], [((5, 5), 3), ((6, 6), 4)]] (1 / 10000)
     = (Throw topologyErr, [(2, 0, 1)])"
    by code_simp
  show ?thesis
    using h release_build_swallows_exceptions[of
      "\<lparr>intermediateChecks = False, verbose = False, processOverlaps = False,
      suppressErrors = False\<rparr>" 100
      "[[((0, 0), 0), ((1, 0), 1), ((0, 1), 2)], [((5, 5), 3), ((6, 6), 4)]]" "1 / 10000"
      topologyErr "[(2, 0, 1)]"]
    by blast
qed

subsection \<open>What the bookkeeping leaves alone\<close>

lemma ring_of_upd_vert:
  assumes "\<And>v. pos (f v) = pos v" "\<And>v. mesh_idx (f v) = mesh_idx v"
          "\<And>v. left (f v) = left v" "\<And>v. right (f v) = right v"
  shows "ring_of (upd_vert i f M) = ring_of M"
proof -
  have "map (\<lambda>v. (pos v, mesh_idx v, left v, right v)) ((verts M)[i := f (verts M ! i)])
        = map (\<lambda>v. (pos v, mesh_idx v, left v, right v)) (verts M)"
  proof (rule nth_equalityI)
    fix j assume "j < length (map (\<lambda>v. (pos v, mesh_idx v, left v, right v))
                        ((verts M)[i := f (verts M ! i)]))"
    then have j: "j < length (verts M)" by simp
    show "map (\<lambda>v. (pos v, mesh_idx v, left v, right v)) ((verts M)[i := f (verts M ! i)]) ! j
          = map (\<lambda>v. (pos v, mesh_idx v, left v, right v)) (verts M) ! j"
      using j assms by (cases "i = j") simp_all
  qed simp
  then show ?thesis by (simp add: ring_of_def upd_vert_def)
qed

lemma ring_of_SetProcessed [simp]: "ring_of (upd_vert i (SetProcessed b) M) = ring_of M"
  by (rule ring_of_upd_vert) (simp_all add: SetProcessed_def)

lemma ring_of_edgeL [simp]: "ring_of (upd_vert i (edgeL_update g) M) = ring_of M"
  by (rule ring_of_upd_vert) simp_all

lemma ring_of_edgeR [simp]: "ring_of (upd_vert i (edgeR_update g) M) = ring_of M"
  by (rule ring_of_upd_vert) simp_all

lemma ring_of_updates [simp]:
  "ring_of (M\<lparr>edges := E\<rparr>) = ring_of M"
  "ring_of (M\<lparr>activeEdges := A\<rparr>) = ring_of M"
  "ring_of (M\<lparr>inactiveEdges := ia\<rparr>) = ring_of M"
  "ring_of (M\<lparr>monotones := ms\<rparr>) = ring_of M"
  by (simp_all add: ring_of_def)

lemma upd_edge_ring: "upd_edge it f M = Some M' \<Longrightarrow> ring_of M' = ring_of M"
  by (auto simp: upd_edge_def split: EdgeItr.splits if_splits)

lemma insert_active_ring: "insert_active p e M = Some M' \<Longrightarrow> ring_of M' = ring_of M"
  by (auto simp: insert_active_def split: EdgeItr.splits if_splits)

lemma splice_to_active_ring: "splice_to_active p it M = Some M' \<Longrightarrow> ring_of M' = ring_of M"
  by (auto simp: splice_to_active_def dest!: insert_active_ring split: EdgeItr.splits if_splits)

lemma splice_to_inactive_ring: "splice_to_inactive it M = Some M' \<Longrightarrow> ring_of M' = ring_of M"
  by (auto simp: splice_to_inactive_def split: EdgeItr.splits if_splits)

lemma UpdateEdge_ring: "UpdateEdge edge vert M = Some M' \<Longrightarrow> ring_of M' = ring_of M"
  by (auto simp: UpdateEdge_def split: Option.bind_splits dest!: upd_edge_ring)

lemma LinkEdges_ring: "LinkEdges e1 e2 M = Some M' \<Longrightarrow> ring_of M' = ring_of M"
  by (auto simp: LinkEdges_def split: Option.bind_splits dest!: upd_edge_ring)

lemma RemovePair_ring: "RemovePair w M = Some M' \<Longrightarrow> ring_of M' = ring_of M"
  by (auto simp: RemovePair_def split: Option.bind_splits
      dest!: upd_edge_ring splice_to_inactive_ring)

lemma ProcessVert_ring: "ProcessVert vert M = Some (ty, M') \<Longrightarrow> ring_of M' = ring_of M"
  unfolding ProcessVert_def Let_def
  by (auto split: if_splits Option.bind_splits
      dest!: upd_edge_ring UpdateEdge_ring LinkEdges_ring)

subsection \<open>Counting the triangles\<close>







subsection \<open>Degenerate polygons\<close>




subsection \<open>Overlap detection in the forward sweep\<close>

lemma OVERLAP_ASSERT_eq:
  "OVERLAP_ASSERT debug params c M k = (if c then k else Exit (overlap_failure debug params M))"
  by (simp add: OVERLAP_ASSERT_def OverlapAssert_def ASSERT_def overlap_failure_def)

lemma PlaceStart_ring: "PlaceStart vert M = Some (ty, M') \<Longrightarrow> ring_of M' = ring_of M"
  unfolding PlaceStart_def Let_def
  by (auto split: if_splits Option.bind_splits prod.splits
      dest!: insert_active_ring LinkEdges_ring)

lemma PlaceStart_Skip: "PlaceStart vert M = Some (Skip, M') \<Longrightarrow> M' = M"
  unfolding PlaceStart_def Let_def
  by (auto split: if_splits Option.bind_splits prod.splits)

lemma ProcessVert_Skip: "ProcessVert vert M = Some (Skip, M') \<Longrightarrow> M' = M"
  unfolding ProcessVert_def Let_def
  by (auto split: if_splits Option.bind_splits)

lemma ProcessVert_Start: "ProcessVert vert M = Some (Start, M') \<Longrightarrow> M' = M"
  unfolding ProcessVert_def Let_def
  by (auto split: if_splits Option.bind_splits)

lemma SweepForward_type_Skip:
  assumes "SweepForward_type vert M = Some (Skip, M')" shows "M' = M"
proof (cases "ProcessVert vert M")
  case None
  with assms show ?thesis by (simp add: SweepForward_type_def)
next
  case (Some a)
  obtain t0 M1 where a: "a = (t0, M1)" by (cases a)
  show ?thesis
  proof (cases "t0 = Start")
    case True
    with assms Some a have "PlaceStart vert M1 = Some (Skip, M')"
      by (simp add: SweepForward_type_def)
    moreover have "M1 = M" using Some a True ProcessVert_Start by blast
    ultimately show ?thesis using PlaceStart_Skip by blast
  next
    case False
    with assms Some a have "ProcessVert vert M = Some (Skip, M')"
      by (simp add: SweepForward_type_def)
    then show ?thesis by (rule ProcessVert_Skip)
  qed
qed

lemma SweepForward_type_ring: "SweepForward_type vert M = Some (ty, M') \<Longrightarrow> ring_of M' = ring_of M"
  by (auto simp: SweepForward_type_def split: option.splits if_splits
      dest!: PlaceStart_ring ProcessVert_ring)


lemma SweepForward_choose_sM: "SweepForward_choose ia s = (vert, s1) \<Longrightarrow> sM s1 = sM s"
  by (auto simp: SweepForward_choose_def Let_def split: if_splits)

lemma SweepForward_process_ring:
  "SweepForward_process type vert s = Some s' \<Longrightarrow> ring_of (sM s') = ring_of (sM s)"
  unfolding SweepForward_process_def Let_def
  by (cases type) (auto split: if_splits Option.bind_splits dest!: RemovePair_ring)

lemma SweepForward_step_alt:
  "SweepForward_step debug params s =
     (case insertAt s of
        None \<Rightarrow> Exit (Ok (False, sM s))
      | Some ia \<Rightarrow>
          (case SweepForward_choose ia s of
             (vert, s1) \<Rightarrow>
               if Processed (verts (sM s1) ! vert) then Continue s1
               else if skipped s1 \<noteq> [] \<and>
                       IsPast (verts (sM s1) ! vert) (verts (sM s1) ! hd (skipped s1))
                         (precision (sM s1))
               then Exit (overlap_failure debug params (sM s1))
               else
                 (case SweepForward_type vert (sM s1) of
                    None \<Rightarrow> Exit Undefined
                  | Some (type, M2) \<Rightarrow>
                      if type = Skip then
                        (case insertAt s1 of
                           None \<Rightarrow> Exit Undefined
                         | Some ia1 \<Rightarrow>
                             if after (monotones M2) ia1 = None \<or>
                                (nextAttached s1 = [] \<and> starts s1 = [])
                             then Exit (overlap_failure debug params M2)
                             else Continue (s1\<lparr>sM := M2, skipped := vert # skipped s1\<rparr>))
                      else
                        (case SweepForward_process type vert (s1\<lparr>sM := M2\<rparr>) of
                           None \<Rightarrow> Exit Undefined
                         | Some s2 \<Rightarrow> Continue s2))))"
  unfolding SweepForward_step_def SweepForward_type_def OVERLAP_ASSERT_eq Let_def
  by (auto split: option.splits prod.splits)


lemma SweepForward_step_Continue_ring:
  assumes "SweepForward_step debug params s = Continue s'"
  shows "ring_of (sM s') = ring_of (sM s)"
proof -
  from assms obtain ia where ia: "insertAt s = Some ia"
    by (auto simp: SweepForward_step_alt split: option.splits)
  obtain vert s1 where c: "SweepForward_choose ia s = (vert, s1)"
    by (cases "SweepForward_choose ia s")
  note sm = SweepForward_choose_sM[OF c]
  from assms ia c consider
      (a) "s' = s1"
    | (b) M2 where "SweepForward_type vert (sM s1) = Some (Skip, M2)"
          "s' = s1\<lparr>sM := M2, skipped := vert # skipped s1\<rparr>"
    | (c) ty M2 where "SweepForward_type vert (sM s1) = Some (ty, M2)"
          "SweepForward_process ty vert (s1\<lparr>sM := M2\<rparr>) = Some s'"
    by (auto simp: SweepForward_step_alt split: option.splits if_splits)
  then show ?thesis
  proof cases
    case a
    then show ?thesis using sm by simp
  next
    case b
    then show ?thesis using sm SweepForward_type_ring[OF b(1)] by simp
  next
    case c
    then show ?thesis
      using sm SweepForward_type_ring[OF c(1)] SweepForward_process_ring[OF c(2)] by simp
  qed
qed

lemma overlap_detected_Exit:
  assumes "overlap_detected s"
  shows "SweepForward_step debug params s = Exit (overlap_failure debug params (sM s))"
proof -
  from assms obtain ia where ia: "insertAt s = Some ia"
    by (auto simp: overlap_detected_def split: option.splits)
  obtain vert s1 where c: "SweepForward_choose ia s = (vert, s1)"
    by (cases "SweepForward_choose ia s")
  note sm = SweepForward_choose_sM[OF c]
  from assms ia c have np: "\<not> Processed (verts (sM s1) ! vert)"
    by (simp add: overlap_detected_def Let_def)
  show ?thesis
  proof (cases "skipped s1 \<noteq> [] \<and>
                IsPast (verts (sM s1) ! vert) (verts (sM s1) ! hd (skipped s1)) (precision (sM s1))")
    case True
    then show ?thesis using ia c np sm by (simp add: SweepForward_step_alt)
  next
    case False
    with assms ia c np obtain ia1 where
      t: "map_option fst (SweepForward_type vert (sM s1)) = Some Skip" and
      i: "insertAt s1 = Some ia1" and
      d: "after (monotones (sM s1)) ia1 = None \<or> (nextAttached s1 = [] \<and> starts s1 = [])"
      by (auto simp: overlap_detected_def Let_def split: option.splits)
    from t obtain M2 where t2: "SweepForward_type vert (sM s1) = Some (Skip, M2)" by auto
    have m2: "M2 = sM s1" using SweepForward_type_Skip[OF t2] .
    show ?thesis
      using ia c np False t2 i d m2 sm by (auto simp: SweepForward_step_alt)
  qed
qed

lemma SweepForward_step_Exit:
  assumes "SweepForward_step debug params s = Exit r"
  shows "(r = Ok (False, sM s) \<and> insertAt s = None) \<or> r = Undefined \<or>
         (overlap_detected s \<and> r = overlap_failure debug params (sM s))"
proof (cases "overlap_detected s")
  case True
  then show ?thesis using assms overlap_detected_Exit[OF True, of debug params] by simp
next
  case False
  show ?thesis
  proof (cases "insertAt s")
    case None
    then show ?thesis using assms by (simp add: SweepForward_step_alt)
  next
    case (Some ia)
    obtain vert s1 where c: "SweepForward_choose ia s = (vert, s1)"
      by (cases "SweepForward_choose ia s")
    show ?thesis
    proof (cases "SweepForward_type vert (sM s1)")
      case None
      then show ?thesis
        using assms Some c False
        by (auto simp: SweepForward_step_alt overlap_detected_def Let_def
                 split: option.splits if_splits)
    next
      case (Some a)
      obtain ty M2 where a: "a = (ty, M2)" by (cases a)
      show ?thesis
      proof (cases "ty = Skip")
        case True
        then have "M2 = sM s1" using Some a SweepForward_type_Skip by blast
        then show ?thesis
          using assms \<open>insertAt s = Some ia\<close> c False Some a True
          by (auto simp: SweepForward_step_alt overlap_detected_def Let_def
                   split: option.splits if_splits)
      next
        case F: False
        then show ?thesis
          using assms \<open>insertAt s = Some ia\<close> c False Some a
          by (auto simp: SweepForward_step_alt overlap_detected_def Let_def
                   split: option.splits if_splits)
      qed
    qed
  qed
qed

lemma SweepForward_run:
  assumes "run_loop (SweepForward_step debug params) n s = r"
  shows "(\<forall>b M'. r = Ok (b, M') \<longrightarrow>
            ring_of M' = ring_of (sM s) \<and> (b \<longrightarrow> \<not> (debug \<and> \<not> processOverlaps params)))
       \<and> (\<forall>ex. r = Throw ex \<longrightarrow> ex = geometryErr \<and> debug \<and> \<not> processOverlaps params)"
  using assms
proof (induction n arbitrary: s)
  case 0
  then show ?case by auto
next
  case (Suc n)
  show ?case
  proof (cases "SweepForward_step debug params s")
    case (Continue s')
    with Suc.prems have "run_loop (SweepForward_step debug params) n s' = r" by simp
    from Suc.IH[OF this] SweepForward_step_Continue_ring[OF Continue]
    show ?thesis by simp
  next
    case (Exit r')
    with Suc.prems have "r = r'" by simp
    with SweepForward_step_Exit[OF Exit] show ?thesis
      by (auto simp: overlap_failure_def split: if_splits)
  qed
qed


text \<open>
  Claim C3, amended. An iteration of the forward sweep that detects an overlap
  ends the sweep at once: with \<^verbatim>\<open>MANIFOLD_DEBUG\<close> and \<^verbatim>\<open>processOverlaps\<close>
  unset it throws \<^verbatim>\<open>geometryErr\<close>; in every other case, so in every build
  without \<^verbatim>\<open>MANIFOLD_DEBUG\<close>, it returns true with the data structure as it
  is. The sweep throws nothing else. After the soft-fail return the
  constructor returns without the backward sweep, the positions, mesh indices
  and links of all vertices are those of the input ring, and
  \<^verbatim>\<open>TriangulateIdx\<close> runs the triangulator on that ring.
\<close>

theorem forward_overlap_policy:
  "(overlap_detected s \<longrightarrow>
      SweepForward_step debug params s =
        Exit (if debug \<and> \<not> processOverlaps params then Throw geometryErr else Ok (True, sM s)))
   \<and> (SweepForward debug params fuel M0 = Ok (True, M1) \<longrightarrow>
        \<not> (debug \<and> \<not> processOverlaps params) \<and> ring_of M1 = ring_of M0)
   \<and> (SweepForward debug params fuel M0 = Throw ex \<longrightarrow>
        ex = geometryErr \<and> debug \<and> \<not> processOverlaps params)
   \<and> (Monotones_init polys eps = Some M0 \<and> SweepForward debug params fuel M0 = Ok (True, M1) \<longrightarrow>
        Monotones_ctor debug params fuel polys eps = Ok M1 \<and>
        snd (TriangulateIdx_try debug params fuel polys eps)
          = triangles (snd (Triangulate fuel M1 [])))"
proof (intro conjI impI)
  assume "overlap_detected s"
  from overlap_detected_Exit[OF this, of debug params]
  show "SweepForward_step debug params s =
        Exit (if debug \<and> \<not> processOverlaps params then Throw geometryErr else Ok (True, sM s))"
    by (simp add: overlap_failure_def)
next
  assume a: "SweepForward debug params fuel M0 = Ok (True, M1)"
  from SweepForward_run[OF a[unfolded SweepForward_def]]
  show "\<not> (debug \<and> \<not> processOverlaps params)" "ring_of M1 = ring_of M0"
    by (auto simp: SweepForward_init_def)
next
  assume a: "SweepForward debug params fuel M0 = Throw ex"
  from SweepForward_run[OF a[unfolded SweepForward_def]]
  show "ex = geometryErr" "debug" "\<not> processOverlaps params" by auto
next
  assume a: "Monotones_init polys eps = Some M0 \<and> SweepForward debug params fuel M0 = Ok (True, M1)"
  then show c: "Monotones_ctor debug params fuel polys eps = Ok M1"
    by (simp add: Monotones_ctor_def bind_result_def)
  show "snd (TriangulateIdx_try debug params fuel polys eps)
          = triangles (snd (Triangulate fuel M1 []))"
    by (cases "Triangulate fuel M1 []")
       (auto simp: TriangulateIdx_try_def c split: result.splits)
qed


theorem forward_overlap_policy_witness:
  "overlap_detected (SweepForward_init cw_square_ring)
   \<and> SweepForward_step False strict_params (SweepForward_init cw_square_ring)
       = Exit (Ok (True, cw_square_ring))
   \<and> SweepForward_step True strict_params (SweepForward_init cw_square_ring)
       = Exit (Throw geometryErr)
   \<and> SweepForward True strict_params 100 cw_square_ring = Throw geometryErr
   \<and> SweepForward False strict_params 100 cw_square_ring = Ok (True, cw_square_ring)
   \<and> Monotones_ctor False strict_params 100 cw_square (1 / 10000) = Ok cw_square_ring
   \<and> snd (TriangulateIdx_try False strict_params 100 cw_square (1 / 10000))
       = triangles (snd (Triangulate 100 cw_square_ring []))"
proof -
  have d: "overlap_detected (SweepForward_init cw_square_ring)" by code_simp
  have i: "Monotones_init cw_square (1 / 10000) = Some cw_square_ring" by code_simp
  have f: "SweepForward False strict_params 100 cw_square_ring = Ok (True, cw_square_ring)"
    by code_simp
  have t: "SweepForward True strict_params 100 cw_square_ring = Throw geometryErr"
    by code_simp
  have p: "\<not> processOverlaps strict_params" by (simp add: strict_params_def)
  have m: "sM (SweepForward_init cw_square_ring) = cw_square_ring"
    by (simp add: SweepForward_init_def)
  show ?thesis
    using d i f t p m
      forward_overlap_policy[of "SweepForward_init cw_square_ring" False strict_params
        100 cw_square_ring cw_square_ring geometryErr cw_square "1 / 10000"]
      forward_overlap_policy[of "SweepForward_init cw_square_ring" True strict_params
        100 cw_square_ring cw_square_ring geometryErr cw_square "1 / 10000"]
    by simp
qed

text \<open>
  For a clockwise square the first iteration finds nothing queued after a
  \<^verbatim>\<open>Skip\<close>. Without \<^verbatim>\<open>MANIFOLD_DEBUG\<close> and with \<^verbatim>\<open>processOverlaps\<close>
  unset the sweep returns the soft-fail value and two triangles come out, with
  no exception, against claim C3.
\<close>

theorem release_build_soft_fails_in_strict_mode:
  "\<not> processOverlaps strict_params
   \<and> overlap_detected (SweepForward_init cw_square_ring)
   \<and> SweepForward False strict_params 100 cw_square_ring = Ok (True, cw_square_ring)
   \<and> TriangulateIdx False strict_params 100 cw_square (1 / 10000) = Ok [(3, 1, 2), (3, 0, 1)]"
  by code_simp

subsection \<open>A skip in the backward sweep\<close>








subsection \<open>The ring invariant and \<^verbatim>\<open>SplitVerts\<close>\<close>

lemma ring_lists_iff:
  "ring_lists ls rs \<longleftrightarrow>
     length ls = length rs \<and>
     (\<forall>v < length rs. ls ! v < length rs \<and> rs ! v < length rs \<and>
                      rs ! (ls ! v) = v \<and> ls ! (rs ! v) = v)"
  by (auto simp: ring_lists_def list_all_iff)

text \<open>
  The links after \<^verbatim>\<open>SplitVerts\<close> as functions of the links before, for two
  new nodes \<open>n\<close> and \<open>Suc n\<close>: they are again inverse to each other.
\<close>

lemma split_funs:
  fixes L R :: "nat \<Rightarrow> nat"
  assumes inv: "\<And>v. v < n \<Longrightarrow> L v < n \<and> R v < n \<and> R (L v) = v \<and> L (R v) = v"
    and no: "north < n" and so: "southv < n"
  defines "nl \<equiv> L north"
  defines "sr \<equiv> (if southv = nl then n else R southv)"
  defines "R8 \<equiv> \<lambda>v. if v = n then Suc n else if v = southv then north
                      else if v = Suc n then sr else if v = nl then n else R v"
  defines "L8 \<equiv> \<lambda>v. if v = Suc n then n else if v = north then southv
                      else if v = sr then Suc n else if v = n then nl else L v"
  assumes v: "v < Suc (Suc n)"
  shows "L8 v < Suc (Suc n) \<and> R8 v < Suc (Suc n) \<and> R8 (L8 v) = v \<and> L8 (R8 v) = v"
proof -
  have injL: "\<And>a b. a < n \<Longrightarrow> b < n \<Longrightarrow> L a = L b \<Longrightarrow> a = b" by (metis inv)
  have injR: "\<And>a b. a < n \<Longrightarrow> b < n \<Longrightarrow> R a = R b \<Longrightarrow> a = b" by (metis inv)
  have nl: "nl < n" "R nl = north" using inv[OF no] by (simp_all add: nl_def)
  have srb: "sr < Suc (Suc n)" "sr \<noteq> Suc n" using inv[OF so] by (auto simp: sr_def)
  have b1: "L8 v < Suc (Suc n)"
    using v inv[of v] nl so no by (auto simp: L8_def less_Suc_eq)
  have b2: "R8 v < Suc (Suc n)"
    using v inv[of v] nl so no srb by (auto simp: R8_def less_Suc_eq)
  consider (se) "v = Suc n" | (ne) "v = n" | (lt) "v < n" using v by linarith
  then have "R8 (L8 v) = v \<and> L8 (R8 v) = v"
  proof cases
    case se
    then show ?thesis using so no nl srb inv[OF so] inv[OF no] inv[OF nl(1)]
      by (auto simp: R8_def L8_def sr_def split: if_splits)
  next
    case ne
    then show ?thesis using so no nl srb inv[OF so] inv[OF no] inv[OF nl(1)]
      by (auto simp: R8_def L8_def sr_def split: if_splits)
  next
    case lt
    have lv: "L v < n" "R v < n" "R (L v) = v" "L (R v) = v" using inv[OF lt] by simp_all
    have 1: "R8 (L8 v) = v"
    proof (cases "v = north")
      case True
      then show ?thesis using so no lt by (simp add: R8_def L8_def)
    next
      case False
      have "L v \<noteq> nl" using injL[OF lt no] False by (auto simp: nl_def)
      show ?thesis
      proof (cases "v = sr")
        case True
        then show ?thesis using False lt so by (auto simp: R8_def L8_def)
      next
        case F2: False
        have "L v \<noteq> southv"
        proof
          assume e: "L v = southv"
          then have "R southv = v" using lv by simp
          moreover have "southv \<noteq> nl" using e \<open>L v \<noteq> nl\<close> by simp
          ultimately show False using F2 by (simp add: sr_def)
        qed
        then show ?thesis
          using False F2 lt lv \<open>L v \<noteq> nl\<close> by (simp add: R8_def L8_def)
      qed
    qed
    have 2: "L8 (R8 v) = v"
    proof (cases "v = southv")
      case True
      then show ?thesis using so no lt by (simp add: R8_def L8_def)
    next
      case False
      show ?thesis
      proof (cases "v = nl")
        case True
        then show ?thesis using False lt no nl srb inv[OF so]
          by (auto simp: R8_def L8_def sr_def)
      next
        case F2: False
        have "R v \<noteq> north" using F2 lv nl_def by auto
        have "R v \<noteq> sr"
        proof
          assume e: "R v = sr"
          then have "sr < n" using lv by simp
          then have "sr = R southv" by (auto simp: sr_def split: if_splits)
          then show False using e injR[OF lt so] False by simp
        qed
        then show ?thesis
          using False F2 lt lv \<open>R v \<noteq> north\<close> by (simp add: R8_def L8_def)
      qed
    qed
    from 1 2 show ?thesis by simp
  qed
  with b1 b2 show ?thesis by simp
qed


lemma map_update_same:
  assumes "\<And>x. g (f x) = g x"
  shows "map g (xs[i := f (xs ! i)]) = map g xs"
proof (rule nth_equalityI)
  fix j assume "j < length (map g (xs[i := f (xs ! i)]))"
  then show "map g (xs[i := f (xs ! i)]) ! j = map g xs ! j"
    using assms by (cases "i = j") simp_all
qed simp

lemma map_update_field:
  assumes "\<And>x. g (f x) = c"
  shows "map g (xs[i := f (xs ! i)]) = (map g xs)[i := c]"
proof (rule nth_equalityI)
  fix j assume "j < length (map g (xs[i := f (xs ! i)]))"
  then show "map g (xs[i := f (xs ! i)]) ! j = (map g xs)[i := c] ! j"
    using assms by (cases "i = j") simp_all
qed simp

lemma rights_Link [simp]: "rights (Link l r M) = (rights M)[l := r]"
  by (simp add: rights_def Link_def upd_vert_def map_update_same map_update_field)

lemma lefts_Link [simp]: "lefts (Link l r M) = (lefts M)[r := l]"
  by (simp add: lefts_def Link_def upd_vert_def map_update_same map_update_field)

lemma length_Link [simp]: "length (verts (Link l r M)) = length (verts M)"
  by (simp add: Link_def upd_vert_def)

lemma rights_SetProcessed [simp]: "rights (upd_vert i (SetProcessed b) M) = rights M"
  by (simp add: rights_def upd_vert_def map_update_same SetProcessed_def)

lemma lefts_SetProcessed [simp]: "lefts (upd_vert i (SetProcessed b) M) = lefts M"
  by (simp add: lefts_def upd_vert_def map_update_same SetProcessed_def)

lemma length_upd_vert [simp]: "length (verts (upd_vert i f M)) = length (verts M)"
  by (simp add: upd_vert_def)

lemma SplitVerts_lists:
  assumes n: "north < length (verts M)" and s: "southv < length (verts M)"
  defines "ls \<equiv> lefts M" and "rs \<equiv> rights M"
  defines "NE \<equiv> length (verts M)"
  defines "rs2 \<equiv> (rs @ [rs ! north])[ls ! north := NE]"
  defines "ls2 \<equiv> (ls @ [ls ! north])[NE := ls ! north]"
  shows "rights (snd (SplitVerts north southv M))
           = (rs2 @ [rs2 ! southv])[Suc NE := rs2 ! southv, southv := north, NE := Suc NE]"
    and "lefts (snd (SplitVerts north southv M))
           = (ls2 @ [ls2 ! southv])[rs2 ! southv := Suc NE, north := southv, Suc NE := NE]"
    and "fst (SplitVerts north southv M) = NE"
    and "length (verts (snd (SplitVerts north southv M))) = Suc (Suc NE)"
proof -
  let ?M1 = "M\<lparr>verts := verts M @ [verts M ! north],
               monotones := insert_before (monotones M) (Some north) NE\<rparr>"
  let ?M3 = "upd_vert NE (SetProcessed True) (Link (left (verts ?M1 ! north)) NE ?M1)"
  have l1: "left (verts ?M1 ! north) = ls ! north"
    using n by (simp add: nth_append ls_def lefts_def)
  have r1: "rights ?M1 = rs @ [rs ! north]"
    using n by (simp add: rights_def rs_def)
  have l1': "lefts ?M1 = ls @ [ls ! north]"
    using n by (simp add: lefts_def ls_def)
  have r3: "rights ?M3 = rs2"
    unfolding rights_SetProcessed rights_Link r1 l1 rs2_def ..
  have l3: "lefts ?M3 = ls2"
    unfolding lefts_SetProcessed lefts_Link l1' l1 ls2_def ..
  have len3: "length (verts ?M3) = Suc NE" by (simp add: NE_def)
  let ?M4 = "?M3\<lparr>verts := verts ?M3 @ [verts ?M3 ! southv],
                 monotones := insert_before (monotones ?M3) (after (monotones ?M3) southv) (Suc NE)\<rparr>"
  have s3: "southv < length (verts ?M3)" using s len3 by (simp add: NE_def)
  have rv: "right (verts ?M3 ! southv) = rs2 ! southv"
    using r3 s3 by (metis nth_map rights_def)
  have lv: "left (verts ?M3 ! southv) = ls2 ! southv"
    using l3 s3 by (metis nth_map lefts_def)
  have r4: "rights ?M4 = rs2 @ [rs2 ! southv]"
    using r3 rv by (simp add: rights_def)
  have l4: "lefts ?M4 = ls2 @ [ls2 ! southv]"
    using l3 lv by (simp add: lefts_def)
  have rs4: "right (verts ?M4 ! southv) = rs2 ! southv"
    using s3 rv by (simp add: nth_append)
  let ?M8 = "Link NE (Suc NE) (Link southv north
               (upd_vert (Suc NE) (SetProcessed True) (Link (Suc NE) (right (verts ?M4 ! southv)) ?M4)))"
  have e: "SplitVerts north southv M = (NE, ?M8)"
    by (simp add: SplitVerts_def Let_def NE_def)
  show "rights (snd (SplitVerts north southv M))
           = (rs2 @ [rs2 ! southv])[Suc NE := rs2 ! southv, southv := north, NE := Suc NE]"
    unfolding e using r4 rs4 by simp
  show "lefts (snd (SplitVerts north southv M))
           = (ls2 @ [ls2 ! southv])[rs2 ! southv := Suc NE, north := southv, Suc NE := NE]"
    unfolding e using l4 rs4 by simp
  show "fst (SplitVerts north southv M) = NE" unfolding e by simp
  show "length (verts (snd (SplitVerts north southv M))) = Suc (Suc NE)"
    unfolding e by (simp add: NE_def)
qed


lemma SplitVerts_ring_ok:
  assumes r: "ring_ok M" and n: "north < length (verts M)" and s: "southv < length (verts M)"
  shows "ring_ok (snd (SplitVerts north southv M))"
proof -
  define ls where "ls = lefts M"
  define rs where "rs = rights M"
  define N where "N = length (verts M)"
  define rs2 where "rs2 = (rs @ [rs ! north])[ls ! north := N]"
  define ls2 where "ls2 = (ls @ [ls ! north])[N := ls ! north]"
  define rs8 where "rs8 = (rs2 @ [rs2 ! southv])[Suc N := rs2 ! southv, southv := north, N := Suc N]"
  define ls8 where "ls8 = (ls2 @ [ls2 ! southv])[rs2 ! southv := Suc N, north := southv, Suc N := N]"
  have lr: "length ls = N" "length rs = N" by (simp_all add: ls_def rs_def N_def lefts_def rights_def)
  have inv: "\<And>v. v < N \<Longrightarrow> ls ! v < N \<and> rs ! v < N \<and> rs ! (ls ! v) = v \<and> ls ! (rs ! v) = v"
    using r lr by (simp add: ring_ok_def ring_lists_iff ls_def rs_def)
  have nN: "north < N" and sN: "southv < N" using n s by (simp_all add: N_def)
  have R: "rights (snd (SplitVerts north southv M)) = rs8"
    and L: "lefts (snd (SplitVerts north southv M)) = ls8"
    using SplitVerts_lists(1,2)[OF n s]
    by (simp_all add: rs8_def ls8_def rs2_def ls2_def ls_def rs_def N_def)
  have len: "length rs8 = Suc (Suc N)" "length ls8 = Suc (Suc N)"
    by (simp_all add: rs8_def ls8_def rs2_def ls2_def lr)
  have nlN: "ls ! north < N" using inv[OF nN] by simp
  have sr: "rs2 ! southv = (if southv = ls ! north then N else rs ! southv)"
    using sN nlN lr by (simp add: rs2_def nth_list_update nth_append)
  have srN: "rs2 ! southv < Suc (Suc N)" using sr inv[OF sN] by auto
  define R8f where "R8f = (\<lambda>v. if v = N then Suc N else if v = southv then north
                       else if v = Suc N then (if southv = ls ! north then N else rs ! southv)
                       else if v = ls ! north then N else rs ! v)"
  define L8f where "L8f = (\<lambda>v. if v = Suc N then N else if v = north then southv
                       else if v = (if southv = ls ! north then N else rs ! southv) then Suc N
                       else if v = N then ls ! north else ls ! v)"
  have R8: "rs8 ! v = R8f v" if "v < Suc (Suc N)" for v
    using that sN nN nlN lr sr
    by (auto simp: R8f_def rs8_def rs2_def nth_list_update nth_append)
  have L8: "ls8 ! v = L8f v" if "v < Suc (Suc N)" for v
    using that sN nN nlN lr sr srN
    by (auto simp: L8f_def ls8_def ls2_def nth_list_update nth_append)
  have F: "L8f v < Suc (Suc N) \<and> R8f v < Suc (Suc N) \<and> R8f (L8f v) = v \<and> L8f (R8f v) = v"
    if v: "v < Suc (Suc N)" for v
    unfolding L8f_def R8f_def
    by (rule split_funs[of N "\<lambda>v. ls ! v" "\<lambda>v. rs ! v" north southv v, OF inv nN sN v])
  have "ring_lists ls8 rs8"
    unfolding ring_lists_iff len
  proof (intro conjI allI impI)
    fix v assume v: "v < Suc (Suc N)"
    show "ls8 ! v < Suc (Suc N)" using F[OF v] L8[OF v] by simp
    show "rs8 ! v < Suc (Suc N)" using F[OF v] R8[OF v] by simp
    show "rs8 ! (ls8 ! v) = v"
      using F[OF v] L8[OF v] R8[of "L8f v"] by simp
    show "ls8 ! (rs8 ! v) = v"
      using F[OF v] R8[OF v] L8[of "R8f v"] by simp
  qed simp
  then show ?thesis by (simp add: ring_ok_def R L)
qed

subsection \<open>The number of triangles of a ring of loops\<close>






lemma Processed_SetProcessed [simp]: "Processed (SetProcessed True v)"
  by (simp add: Processed_def SetProcessed_def)


lemma monotones_upd_vert [simp]: "monotones (upd_vert i f M) = monotones M"
  by (simp add: upd_vert_def)





lemma number_verts_length [simp]: "length (number_verts vs i V) = length V"
  by (induction vs arbitrary: i V) simp_all











end
